theory Spec2Isabelle
  imports Main "HOL-Library.Sublist"
begin

section \<open>Text as lines\<close>

text \<open>
  JavaScript strings are modelled as \<^typ>\<open>string\<close> (one \<^typ>\<open>char\<close> per code unit, so the
  model covers the code units below 256). \<open>split_lines\<close> is \<open>s.split("\n")\<close>: it always
  returns at least one line, and \<open>join_lines\<close> is \<open>lines.join("\n")\<close>.
\<close>

fun split_lines :: "string \<Rightarrow> string list" where
  "split_lines [] = [[]]"
| "split_lines (c # cs) =
     (if c = CHR 0x0A then [] # split_lines cs
      else let rest = split_lines cs in (c # hd rest) # tl rest)"

fun join_lines :: "string list \<Rightarrow> string" where
  "join_lines [] = []"
| "join_lines [l] = l"
| "join_lines (l # m # ls) = l @ CHR 0x0A # join_lines (m # ls)"

section \<open>Edit trigger: \<open>countChangedLines\<close> and \<open>handleCodeChange\<close> (App.tsx)\<close>

text \<open>The first \<open>while\<close> loop of \<open>countChangedLines\<close>: skip the matching leading lines.\<close>

function prefix_loop :: "string list \<Rightarrow> string list \<Rightarrow> int \<Rightarrow> int" where
  "prefix_loop beforeLines afterLines start =
     (if start < int (length beforeLines) \<and> start < int (length afterLines) \<and>
         beforeLines ! nat start = afterLines ! nat start
      then prefix_loop beforeLines afterLines (start + 1)
      else start)"
  by pat_completeness auto
termination
  by (relation "measure (\<lambda>(b, a, s). nat (int (length b) - s))") auto

declare prefix_loop.simps [simp del]

text \<open>The second loop: walk both end indices down while the trailing lines match.\<close>

function suffix_loop :: "string list \<Rightarrow> string list \<Rightarrow> int \<Rightarrow> int \<Rightarrow> int \<Rightarrow> int \<times> int" where
  "suffix_loop beforeLines afterLines start beforeEnd afterEnd =
     (if beforeEnd \<ge> start \<and> afterEnd \<ge> start \<and>
         beforeLines ! nat beforeEnd = afterLines ! nat afterEnd
      then suffix_loop beforeLines afterLines start (beforeEnd - 1) (afterEnd - 1)
      else (beforeEnd, afterEnd))"
  by pat_completeness auto
termination
  by (relation "measure (\<lambda>(b, a, s, be, ae). nat (be - s + 1))") auto

declare suffix_loop.simps [simp del]

definition countChangedLines :: "string \<Rightarrow> string \<Rightarrow> int" where
  "countChangedLines before after =
     (if before = after then 0
      else
        let beforeLines = split_lines before;
            afterLines = split_lines after;
            start = prefix_loop beforeLines afterLines 0;
            (beforeEnd, afterEnd) =
              suffix_loop beforeLines afterLines start
                (int (length beforeLines) - 1) (int (length afterLines) - 1);
            removedLines = max 0 (beforeEnd - start + 1);
            addedLines = max 0 (afterEnd - start + 1)
        in max removedLines addedLines)"

text \<open>
  The specification's wording of the magnitude, for comparison with the code: trim the
  longest common prefix of the two line lists, then the longest common suffix of what
  remains, and take the larger of the two remaining line counts.
\<close>

definition longest_common_suffix :: "'a list \<Rightarrow> 'a list \<Rightarrow> 'a list" where
  "longest_common_suffix xs ys = rev (longest_common_prefix (rev xs) (rev ys))"

definition trimmed_magnitude :: "string \<Rightarrow> string \<Rightarrow> nat" where
  "trimmed_magnitude before after =
     (let beforeLines = split_lines before;
          afterLines = split_lines after;
          p = longest_common_prefix beforeLines afterLines;
          beforeRest = drop (length p) beforeLines;
          afterRest = drop (length p) afterLines;
          s = longest_common_suffix beforeRest afterRest
      in max (length beforeRest - length s) (length afterRest - length s))"

text \<open>
  The part of the \<open>App\<close> component's state that \<open>handleCodeChange\<close> reads and writes.
  \<open>aiPanelCodeCalls\<close> records the argument of every call of \<open>setAiPanelCode\<close> made by the
  handler, in order, so that preview refreshes can be counted.
\<close>

record app_state =
  currentFile :: string
  filesContent :: "string \<rightharpoonup> string"
  aiPanelCode :: string
  aiPanelCodeCalls :: "string list"
  pendingAiLineChanges :: "string \<rightharpoonup> int"

definition AI_REFRESH_LINE_THRESHOLD :: int where
  "AI_REFRESH_LINE_THRESHOLD = 5"

text \<open>\<open>filesContent[currentFile] || ""\<close> and \<open>pendingAiLineChangesRef.current[currentFile] || 0\<close>.\<close>

definition current_content :: "app_state \<Rightarrow> string" where
  "current_content st = (case filesContent st (currentFile st) of None \<Rightarrow> [] | Some c \<Rightarrow> c)"

definition pending_changes :: "app_state \<Rightarrow> int" where
  "pending_changes st = (case pendingAiLineChanges st (currentFile st) of None \<Rightarrow> 0 | Some n \<Rightarrow> n)"

definition handleCodeChange :: "string \<Rightarrow> app_state \<Rightarrow> app_state" where
  "handleCodeChange newCode st =
     (let previousCode = current_content st;
          changedLines = countChangedLines previousCode newCode;
          st1 =
            (if changedLines > 0 then
               let pending = pending_changes st;
                   nextPending = pending + changedLines;
                   st' = st\<lparr>pendingAiLineChanges :=
                           (pendingAiLineChanges st)(currentFile st \<mapsto> nextPending)\<rparr>
               in if nextPending \<ge> AI_REFRESH_LINE_THRESHOLD
                  then st'\<lparr>aiPanelCode := newCode,
                           aiPanelCodeCalls := aiPanelCodeCalls st' @ [newCode],
                           pendingAiLineChanges :=
                             (pendingAiLineChanges st')(currentFile st \<mapsto> 0)\<rparr>
                  else st'
             else st)
      in st1\<lparr>filesContent := (filesContent st1)(currentFile st \<mapsto> newCode)\<rparr>)"

text \<open>A concrete editor state: \<open>main.py\<close> holds three lines and nothing is pending.\<close>

definition example_app_state :: app_state where
  "example_app_state =
     \<lparr>currentFile = ''main.py'',
      filesContent = [''main.py'' \<mapsto> join_lines [''a'', ''b'', ''c'']],
      aiPanelCode = join_lines [''a'', ''b'', ''c''],
      aiPanelCodeCalls = [],
      pendingAiLineChanges = Map.empty\<rparr>"

section \<open>Batcher: the batch loop of \<open>analyzeCode\<close> (AIPanel.tsx)\<close>

definition batchSize :: nat where
  "batchSize = 5"

text \<open>
  The values taken by \<open>batch = extractedFunctions.slice(i, i + batchSize)\<close> as the loop
  \<open>for (let i = 0; i < extractedFunctions.length; i += batchSize)\<close> runs from index \<open>i\<close>.
\<close>

function batches_from :: "nat \<Rightarrow> 'a list \<Rightarrow> 'a list list" where
  "batches_from i extractedFunctions =
     (if i < length extractedFunctions
      then take batchSize (drop i extractedFunctions) # batches_from (i + batchSize) extractedFunctions
      else [])"
  by pat_completeness auto
termination
  by (relation "measure (\<lambda>(i, xs). length xs - i)") (auto simp: batchSize_def)

declare batches_from.simps [simp del]

definition batches :: "'a list \<Rightarrow> 'a list list" where
  "batches extractedFunctions = batches_from 0 extractedFunctions"

section \<open>Unit extractor: \<open>extractPythonFunctions\<close> (AIPanel.tsx)\<close>

text \<open>
  The character classes of the regular expressions, on code units below 256:
  \<open>\s\<close> (which is also what \<open>trim\<close> strips) is TAB, LF, VT, FF, CR, SPACE and NBSP;
  \<open>\w\<close> is \<open>[A-Za-z0-9_]\<close>.
\<close>

definition is_space :: "char \<Rightarrow> bool" where
  "is_space c = (c \<in> set [CHR 0x09, CHR 0x0A, CHR 0x0B, CHR 0x0C, CHR 0x0D, CHR 0x20, CHR 0xA0])"

definition is_ident_start :: "char \<Rightarrow> bool" where
  "is_ident_start c =
     (let n = (of_char c :: nat) in (65 \<le> n \<and> n \<le> 90) \<or> (97 \<le> n \<and> n \<le> 122) \<or> c = CHR ''_'')"

definition is_word_char :: "char \<Rightarrow> bool" where
  "is_word_char c = (is_ident_start c \<or> (let n = (of_char c :: nat) in 48 \<le> n \<and> n \<le> 57))"

text \<open>\<open>s.trim()\<close>.\<close>

definition js_trim :: "string \<Rightarrow> string" where
  "js_trim s = rev (dropWhile is_space (rev (dropWhile is_space s)))"

text \<open>\<open>line.replace(/\t/g, "    ").match(/^\s*/)?.[0].length || 0\<close>.\<close>

definition normalizeIndent :: "string \<Rightarrow> nat" where
  "normalizeIndent line =
     length (takeWhile is_space
       (concat (map (\<lambda>c. if c = CHR 0x09 then ''    '' else [c]) line)))"

text \<open>
  \<open>line.match(/^(\s*)def\s+([A-Za-z_]\w*)\s*\(/)\<close>: \<open>None\<close> when the line does not match,
  otherwise the second capture group (the function name). The character classes that
  follow one another in the pattern are disjoint, so the greedy match is the only one.
\<close>

definition defMatch :: "string \<Rightarrow> string option" where
  "defMatch line =
     (let afterIndent = dropWhile is_space line in
      if take 3 afterIndent = ''def'' then
        let afterDef = drop 3 afterIndent;
            atName = dropWhile is_space afterDef
        in if afterDef \<noteq> [] \<and> is_space (hd afterDef) \<and> atName \<noteq> [] \<and> is_ident_start (hd atName)
           then
             let name = takeWhile is_word_char atName;
                 afterName = dropWhile is_space (dropWhile is_word_char atName)
             in if afterName \<noteq> [] \<and> hd afterName = CHR ''(''
                then Some name else None
           else None
      else None)"

text \<open>\<open>prevLine.match(/^(\s*)@/)\<close>, as a truth value.\<close>

definition decoratorMatch :: "string \<Rightarrow> bool" where
  "decoratorMatch line =
     (case dropWhile is_space line of [] \<Rightarrow> False | c # _ \<Rightarrow> c = CHR ''@'')"

text \<open>
  The loop \<open>while (start > 0)\<close> that moves the start of a unit up over decorator lines;
  the result is the final value of \<open>start\<close>.
\<close>

fun decorator_loop :: "string list \<Rightarrow> nat \<Rightarrow> nat \<Rightarrow> nat" where
  "decorator_loop lines defIndent 0 = 0"
| "decorator_loop lines defIndent (Suc k) =
     (let prevLine = lines ! k in
      if js_trim prevLine = [] then Suc k
      else if \<not> decoratorMatch prevLine \<or> normalizeIndent prevLine \<noteq> defIndent then Suc k
      else decorator_loop lines defIndent k)"

text \<open>
  The loop \<open>while (end < lines.length)\<close> that moves the end of a unit down; the result is
  the final value of \<open>end\<close>.
\<close>

function body_loop :: "string list \<Rightarrow> nat \<Rightarrow> nat \<Rightarrow> nat" where
  "body_loop lines defIndent endLine =
     (if endLine < length lines then
        let currentLine = lines ! endLine in
        if js_trim currentLine = [] then body_loop lines defIndent (endLine + 1)
        else if normalizeIndent currentLine \<le> defIndent then endLine
        else body_loop lines defIndent (endLine + 1)
      else endLine)"
  by pat_completeness auto
termination
  by (relation "measure (\<lambda>(ls, d, e). length ls - e)") auto

declare body_loop.simps [simp del]

record PythonFunctionBlock =
  functionName :: string
  source :: string

text \<open>\<open>lines.slice(start, end)\<close> for \<open>start \<le> end\<close>.\<close>

definition slice :: "nat \<Rightarrow> nat \<Rightarrow> 'a list \<Rightarrow> 'a list" where
  "slice start endLine xs = take (endLine - start) (drop start xs)"

text \<open>
  The outer loop \<open>while (i < lines.length)\<close>, from index \<open>i\<close>. Each unit is returned together
  with the values of \<open>start\<close> and \<open>end\<close> at the moment it is pushed: its line span is
  \<open>[start, end)\<close>. The source keeps only the block; \<open>extractPythonFunctions\<close> below drops
  the span. \<open>the (defMatch (lines ! i))\<close> is \<open>defMatch[2]\<close>, read only where the match
  succeeded.
\<close>

type_synonym unit_span = "nat \<times> nat \<times> PythonFunctionBlock"

definition span_start :: "unit_span \<Rightarrow> nat" where
  "span_start sp = fst sp"

definition span_end :: "unit_span \<Rightarrow> nat" where
  "span_end sp = fst (snd sp)"

definition span_block :: "unit_span \<Rightarrow> PythonFunctionBlock" where
  "span_block sp = snd (snd sp)"

function extract_loop :: "string list \<Rightarrow> nat \<Rightarrow> unit_span list" where
  "extract_loop lines i =
     (if i < length lines then
        if defMatch (lines ! i) = None then extract_loop lines (i + 1)
        else
          let defIndent = normalizeIndent (lines ! i);
              start = decorator_loop lines defIndent i;
              endLine = body_loop lines defIndent (i + 1)
          in (start, endLine,
               \<lparr>functionName = the (defMatch (lines ! i)),
                source = join_lines (slice start endLine lines)\<rparr>)
             # extract_loop lines endLine
      else [])"
  by pat_completeness auto
termination
proof (relation "measure (\<lambda>(ls, i). length ls - i)")
  have ge: "e \<le> body_loop ls d e" for ls d e
  proof (induction ls d e rule: body_loop.induct)
    case (1 ls d e)
    show ?case
    proof (cases "e < length ls")
      case True
      then show ?thesis
        using 1 by (subst body_loop.simps) (auto simp: Let_def intro: Suc_leD)
    next
      case False
      then show ?thesis by (subst body_loop.simps) simp
    qed
  qed
  fix lines :: "string list" and i :: nat and defIndent start endLine
  assume "i < length lines" and "endLine = body_loop lines defIndent (i + 1)"
  then show "((lines, endLine), lines, i) \<in> measure (\<lambda>(ls, i). length ls - i)"
    using ge[of "i + 1" lines defIndent] by simp
qed auto

declare extract_loop.simps [simp del]

definition extract_spans :: "string \<Rightarrow> unit_span list" where
  "extract_spans codeContent = extract_loop (split_lines codeContent) 0"

definition extractPythonFunctions :: "string \<Rightarrow> PythonFunctionBlock list" where
  "extractPythonFunctions codeContent = map span_block (extract_spans codeContent)"

text \<open>
  An invariant of the outer loop, used in the proofs below: at a position \<open>lo\<close> where the
  scan starts or resumes, the line above \<open>lo\<close> cannot be taken into a later unit by the
  decorator loop.
\<close>

definition barrier :: "string list \<Rightarrow> nat \<Rightarrow> bool" where
  "barrier lines lo =
     (lo = 0 \<or> length lines \<le> lo \<or> js_trim (lines ! (lo - 1)) = [] \<or>
      \<not> decoratorMatch (lines ! (lo - 1)) \<or>
      normalizeIndent (lines ! lo) < normalizeIndent (lines ! (lo - 1)))"

text \<open>The reading of the specification's "whitespace-trimmed at both edges".\<close>

definition edges_nonblank :: "string \<Rightarrow> bool" where
  "edges_nonblank src =
     (js_trim (hd (split_lines src)) \<noteq> [] \<and> js_trim (last (split_lines src)) \<noteq> [])"

text \<open>Two concrete files: two functions, the second decorated; and one function.\<close>

definition example_source :: string where
  "example_source =
     join_lines [''def f():'', ''    pass'', '''', ''@dec'', ''def g(x):'', ''    return x'', '''']"

definition example_single :: string where
  "example_single = join_lines [''def f():'', ''    pass'', '''']"

section \<open>Analysis run controller: \<open>parseJsonFromModelText\<close> and \<open>analyzeCode\<close> (AIPanel.tsx)\<close>

text \<open>
  The values \<open>JSON.parse\<close> returns. Of a number only its truthiness is read, so an
  integer stands for it. An object is the list of its properties.
\<close>

datatype json =
  JNull
| JBool bool
| JNumber int
| JString string
| JArray "json list"
| JObject "(string \<times> json) list"

datatype parse_error = SyntaxError | InvalidResponseShape

text \<open>\<open>!item\<close> is false exactly on the truthy values.\<close>

fun truthy :: "json \<Rightarrow> bool" where
  "truthy JNull = False"
| "truthy (JBool b) = b"
| "truthy (JNumber n) = (n \<noteq> 0)"
| "truthy (JString s) = (s \<noteq> [])"
| "truthy (JArray xs) = True"
| "truthy (JObject kvs) = True"

text \<open>
  \<open>item.functionName\<close> and \<open>item.explanation\<close>: only an object can hold these properties
  (a later property of the same name wins); \<open>string_field\<close> is the property's value where
  \<open>typeof\<close> says \<open>"string"\<close>.
\<close>

fun property :: "json \<Rightarrow> string \<Rightarrow> json option" where
  "property (JObject kvs) k = map_of (rev kvs) k"
| "property v k = None"

definition string_field :: "json \<Rightarrow> string \<Rightarrow> string option" where
  "string_field item k = (case property item k of Some (JString s) \<Rightarrow> Some s | _ \<Rightarrow> None)"

definition ascii_lower :: "char \<Rightarrow> char" where
  "ascii_lower c =
     (let n = (of_char c :: nat) in if 65 \<le> n \<and> n \<le> 90 then char_of (n + 32) else c)"

text \<open>\<open>text.replace(/```json\s*/i, "")\<close>: the first match is removed.\<close>

fun strip_json_fence :: "string \<Rightarrow> string" where
  "strip_json_fence [] = []"
| "strip_json_fence (c # cs) =
     (if map ascii_lower (take 7 (c # cs)) = ''```json''
      then dropWhile is_space (drop 7 (c # cs))
      else c # strip_json_fence cs)"

text \<open>\<open>.replace(/```$/i, "")\<close>: a fence that ends the text is removed.\<close>

definition strip_end_fence :: "string \<Rightarrow> string" where
  "strip_end_fence s =
     (if 3 \<le> length s \<and> drop (length s - 3) s = ''```'' then take (length s - 3) s else s)"

definition clean_model_text :: "string \<Rightarrow> string" where
  "clean_model_text t = js_trim (strip_end_fence (strip_json_fence t))"

text \<open>
  \<open>parseJsonFromModelText\<close>. \<open>JSON.parse\<close> is the platform's parser and is a parameter:
  \<open>None\<close> is its \<open>SyntaxError\<close>. Each \<open>throw\<close> is an \<open>Inl\<close>.
\<close>

text \<open>\<open>Array.isArray(parsed) ? parsed : [parsed]\<close>.\<close>

definition as_array :: "json \<Rightarrow> json list" where
  "as_array parsed = (case parsed of JArray items \<Rightarrow> items | _ \<Rightarrow> [parsed])"

definition valid_item :: "json \<Rightarrow> bool" where
  "valid_item item =
     (truthy item \<and> string_field item ''functionName'' \<noteq> None \<and>
      string_field item ''explanation'' \<noteq> None)"

definition parseJsonFromModelText ::
  "(string \<Rightarrow> json option) \<Rightarrow> string \<Rightarrow> parse_error + json list" where
  "parseJsonFromModelText JSON_parse t =
     (case JSON_parse (clean_model_text t) of
        None \<Rightarrow> Inl SyntaxError
      | Some parsed \<Rightarrow>
          let asArray = as_array parsed
          in if list_all valid_item asArray then Inr asArray else Inl InvalidResponseShape)"

text \<open>
  \<open>new Map(parsed.map((item) => [item.functionName, item.explanation]))\<close>: a later entry
  of the same name replaces an earlier one.
\<close>

definition parsedByName :: "json list \<Rightarrow> string \<rightharpoonup> string" where
  "parsedByName parsed =
     map_of (rev (map (\<lambda>item. (the (string_field item ''functionName''),
                               the (string_field item ''explanation''))) parsed))"

definition fallback_text :: string where
  "fallback_text = ''Unable to analyze this function.''"

text \<open>\<open>`<b>${fn.functionName}:</b> ${explanationText}`\<close>.\<close>

definition entry_line :: "string \<Rightarrow> string \<Rightarrow> string" where
  "entry_line name explanationText = ''<b>'' @ name @ '':</b> '' @ explanationText"

text \<open>
  The \<open>batchLines\<close> of the success branch, with
  \<open>parsedByName.get(fn.functionName) || "Unable to analyze this function."\<close>, and of the
  \<open>catch\<close> branch.
\<close>

definition success_lines :: "json list \<Rightarrow> PythonFunctionBlock list \<Rightarrow> string list" where
  "success_lines parsed batch =
     map (\<lambda>fn.
            let explanationText =
                  (case parsedByName parsed (functionName fn) of
                     None \<Rightarrow> fallback_text
                   | Some e \<Rightarrow> if e = [] then fallback_text else e)
            in entry_line (functionName fn) explanationText) batch"

definition fallback_lines :: "PythonFunctionBlock list \<Rightarrow> string list" where
  "fallback_lines batch = map (\<lambda>fn. entry_line (functionName fn) fallback_text) batch"

datatype AIPanelMode = Reviewer | Teacher | Vibe | Voice

text \<open>
  The component state the run reads and writes: \<open>analysisRunRef.current\<close>,
  \<open>explanation\<close>, \<open>isAnalyzing\<close> and \<open>lastGeminiResponse\<close>.
\<close>

record panel_state =
  analysisRun :: nat
  explanation :: string
  isAnalyzing :: bool
  lastGeminiResponse :: string

text \<open>
  What a call of \<open>analyzeCode\<close> holds while it is suspended at
  \<open>await model.generateContent(prompt)\<close>: its \<open>runId\<close>, the extracted units and the loop
  index \<open>i\<close> of the batch whose request is in flight.
\<close>

record pending_run =
  runId :: nat
  extractedFunctions :: "PythonFunctionBlock list"
  batchIndex :: nat

text \<open>
  A call has returned (\<open>Returned\<close>), has thrown out of \<open>getModel\<close> (\<open>Threw\<close>), or awaits
  the reply to one batch request.
\<close>

datatype run_status = Returned | Threw | Awaiting pending_run

text \<open>The model call is rejected, or \<open>response.text()\<close> is the given text.\<close>

datatype model_reply = Rejected | ReplyText string

definition analyzing_header :: "AIPanelMode \<Rightarrow> string" where
  "analyzing_header m =
     ''Analyzing function(s) in batch(es) using '' @
     (if m = Teacher then ''Code Buddy'' else ''Reviewer'') @ '' mode...''"

text \<open>
  The head of the \<open>for\<close> loop, run when the loop is entered and after every batch: the
  loop condition, the staleness check, and then either the next request or, after the
  loop, \<open>if (analysisRunRef.current === runId) setIsAnalyzing(false)\<close>.
\<close>

definition loop_head :: "pending_run \<Rightarrow> panel_state \<Rightarrow> panel_state \<times> run_status" where
  "loop_head run st =
     (if batchIndex run < length (extractedFunctions run) then
        if analysisRun st \<noteq> runId run then (st, Returned)
        else (st, Awaiting run)
      else
        (if analysisRun st = runId run then st\<lparr>isAnalyzing := False\<rparr> else st, Returned))"

text \<open>
  \<open>analyzeCode\<close> from its call to its first suspension. \<open>hasApiKey\<close> says whether
  \<open>VITE_GEMINI_API_KEY\<close> is set (\<open>getModel\<close> throws when it is not).
\<close>

definition analyzeCode_start ::
  "bool \<Rightarrow> AIPanelMode \<Rightarrow> string \<Rightarrow> panel_state \<Rightarrow> panel_state \<times> run_status" where
  "analyzeCode_start hasApiKey m codeContent st =
     (let newRunId = analysisRun st + 1;
          st1 = st\<lparr>analysisRun := newRunId, isAnalyzing := True, explanation := [],
                   lastGeminiResponse := []\<rparr>;
          extracted = extractPythonFunctions codeContent
      in if length extracted = 0
         then (st1\<lparr>explanation := ''No Python functions found for analysis.'',
                    isAnalyzing := False\<rparr>, Returned)
         else
           let st2 = st1\<lparr>explanation := analyzing_header m\<rparr>
           in if \<not> hasApiKey then (st2, Threw)
              else loop_head \<lparr>runId = newRunId, extractedFunctions = extracted, batchIndex = 0\<rparr> st2)"

text \<open>
  \<open>analyzeCode\<close> from the arrival of a batch's reply to its next suspension or its
  return: the body of the \<open>try\<close> or of the \<open>catch\<close>, then \<open>i += batchSize\<close> and the loop
  head. The state is the component's state at the moment the reply arrives.
\<close>

definition analyzeCode_resume ::
  "(string \<Rightarrow> json option) \<Rightarrow> model_reply \<Rightarrow> pending_run \<Rightarrow> panel_state
     \<Rightarrow> panel_state \<times> run_status" where
  "analyzeCode_resume JSON_parse reply run st =
     (let batch = slice (batchIndex run) (batchIndex run + batchSize) (extractedFunctions run);
          st' =
            (case reply of
               Rejected \<Rightarrow>
                 st\<lparr>explanation := explanation st @ CHR 0x0A # join_lines (fallback_lines batch)\<rparr>
             | ReplyText t \<Rightarrow>
                 let st1 = st\<lparr>lastGeminiResponse :=
                             (if lastGeminiResponse st \<noteq> []
                              then lastGeminiResponse st @ [CHR 0x0A, CHR 0x0A] @ js_trim t
                              else js_trim t)\<rparr>
                 in (case parseJsonFromModelText JSON_parse t of
                       Inl err \<Rightarrow>
                         st1\<lparr>explanation :=
                               explanation st1 @ CHR 0x0A # join_lines (fallback_lines batch)\<rparr>
                     | Inr parsed \<Rightarrow>
                         st1\<lparr>explanation :=
                               explanation st1 @ CHR 0x0A # join_lines (success_lines parsed batch)\<rparr>))
      in loop_head (run\<lparr>batchIndex := batchIndex run + batchSize\<rparr>) st')"

text \<open>The cleanup of the effect that schedules the analysis: \<open>analysisRunRef.current += 1\<close>.\<close>

definition effect_cleanup :: "panel_state \<Rightarrow> panel_state" where
  "effect_cleanup st = st\<lparr>analysisRun := analysisRun st + 1\<rparr>"

text \<open>
  One call of \<open>analyzeCode\<close> with nothing else running in between: the replies are
  delivered in order, one to each suspension.
\<close>

fun deliver ::
  "(string \<Rightarrow> json option) \<Rightarrow> model_reply list \<Rightarrow> panel_state \<times> run_status
     \<Rightarrow> panel_state \<times> run_status" where
  "deliver JSON_parse (r # rs) (st, Awaiting run) =
     deliver JSON_parse rs (analyzeCode_resume JSON_parse r run st)"
| "deliver JSON_parse rs (st, status) = (st, status)"

text \<open>
  The explanation text the specification gives a unit of a batch, from the batch's reply:
  the parsed explanation of that name, or the fallback.
\<close>

definition explanation_for :: "(string \<Rightarrow> json option) \<Rightarrow> model_reply \<Rightarrow> string \<Rightarrow> string" where
  "explanation_for JSON_parse reply name =
     (case reply of
        Rejected \<Rightarrow> fallback_text
      | ReplyText t \<Rightarrow>
          (case parseJsonFromModelText JSON_parse t of
             Inl err \<Rightarrow> fallback_text
           | Inr parsed \<Rightarrow>
               (case parsedByName parsed name of
                  None \<Rightarrow> fallback_text
                | Some e \<Rightarrow> if e = [] then fallback_text else e)))"

text \<open>The line the specification gives a unit of a batch, from the batch's reply.\<close>

definition unit_line ::
  "(string \<Rightarrow> json option) \<Rightarrow> model_reply \<Rightarrow> PythonFunctionBlock \<Rightarrow> string" where
  "unit_line JSON_parse reply fn =
     entry_line (functionName fn) (explanation_for JSON_parse reply (functionName fn))"

text \<open>
  The explanations of the response items whose \<open>functionName\<close> is the given name, in the
  order of the response.
\<close>

definition matching_explanations :: "json list \<Rightarrow> string \<Rightarrow> string list" where
  "matching_explanations parsed name =
     map (\<lambda>item. the (string_field item ''explanation''))
       (filter (\<lambda>item. string_field item ''functionName'' = Some name) parsed)"

text \<open>
  Concrete data for the examples: a parser that knows four reply texts, a fresh panel
  state, and a file of six one-line functions.
\<close>

definition response_item :: "string \<Rightarrow> string \<Rightarrow> json" where
  "response_item name text =
     JObject [(''functionName'', JString name), (''explanation'', JString text)]"

definition example_parse :: "string \<Rightarrow> json option" where
  "example_parse t =
     (if t = ''reply a'' then Some (JArray [response_item ''a'' ''old text''])
      else if t = ''reply g'' then Some (JArray [response_item ''g'' ''new text''])
      else if t = ''reply f'' then
        Some (JArray [response_item ''f'' [], response_item ''g'' ''adds one''])
      else if t = ''reply bad'' then Some (JArray [JObject [(''functionName'', JString ''f'')]])
      else None)"

definition initial_panel :: panel_state where
  "initial_panel =
     \<lparr>analysisRun = 0, explanation = [], isAnalyzing = False, lastGeminiResponse = []\<rparr>"

definition six_functions :: string where
  "six_functions =
     join_lines [''def a():'', ''def b():'', ''def c():'', ''def d():'', ''def e():'', ''def f():'']"

text \<open>
  A schedule of the panel: run 1 analyses \<open>six_functions\<close> and awaits its first batch; the
  content changes (the effect's cleanup runs) and run 2 starts on a file with the single
  function \<open>g\<close>; then the reply to run 1's request arrives, and then the reply to run 2's.
  The result is the state and status after run 1's reply, and the final state.
\<close>

definition stale_reply_schedule :: "(panel_state \<times> run_status) \<times> panel_state" where
  "stale_reply_schedule =
     (case analyzeCode_start True Teacher six_functions initial_panel of
        (s1, Awaiting run1) \<Rightarrow>
          (case analyzeCode_start True Teacher ''def g():'' (effect_cleanup s1) of
             (s2, Awaiting run2) \<Rightarrow>
               (case analyzeCode_resume example_parse (ReplyText ''reply a'') run1 s2 of
                  (s3, status1) \<Rightarrow>
                    ((s3, status1),
                     fst (analyzeCode_resume example_parse (ReplyText ''reply g'') run2 s3)))
           | (s2, status2) \<Rightarrow> ((s2, status2), s2))
      | (s1, status1) \<Rightarrow> ((s1, status1), s1))"

section \<open>Voice session controller (the panel with the Rubber Ducky mode)\<close>

text \<open>\<open>s.toLowerCase()\<close> on code units below 256, and \<open>s.includes(p)\<close>.\<close>

definition js_lower_char :: "char \<Rightarrow> char" where
  "js_lower_char c =
     (let n = (of_char c :: nat)
      in if (65 \<le> n \<and> n \<le> 90) \<or> (192 \<le> n \<and> n \<le> 222 \<and> n \<noteq> 215)
         then char_of (n + 32) else c)"

definition js_toLowerCase :: "string \<Rightarrow> string" where
  "js_toLowerCase s = map js_lower_char s"

fun js_includes :: "string \<Rightarrow> string \<Rightarrow> bool" where
  "js_includes [] p = (p = [])"
| "js_includes (c # cs) p = (take (length p) (c # cs) = p \<or> js_includes cs p)"

definition RUBBER_DUCKY_EXIT_PHRASES :: "string list" where
  "RUBBER_DUCKY_EXIT_PHRASES =
     [''stop'', ''done'', ''end session'', ''that'' @ [CHR 0x27] @ ''s all'',
      ''we'' @ [CHR 0x27] @ ''re done'']"

datatype RubberDuckyStatus = Idle | Listening | Processing | Speaking

datatype message_role = UserRole | ModelRole

record ConversationMessage =
  role :: message_role
  content :: string

text \<open>
  The state of the voice session: the three state variables, the mirrored transcript, and
  the two refs \<open>rubberDuckyContextRef\<close> and \<open>pendingTranscriptProcessRef\<close>.
\<close>

record voice_state =
  sessionActive :: bool
  conversationHistory :: "ConversationMessage list"
  rubberDuckyStatus :: RubberDuckyStatus
  voiceTranscript :: string
  rubberDuckyContext :: "(string \<times> string) option"
  pendingTranscriptProcess :: bool

definition endRubberDuckySession :: "voice_state \<Rightarrow> voice_state" where
  "endRubberDuckySession st =
     st\<lparr>sessionActive := False, conversationHistory := [], rubberDuckyStatus := Idle,
        voiceTranscript := [], rubberDuckyContext := None, pendingTranscriptProcess := False\<rparr>"

text \<open>
  A call of \<open>processRubberDuckyTranscript\<close> has returned, or it awaits
  \<open>chat.sendMessage(trimmed)\<close>: the model has been invoked with the earlier history and
  the trimmed text.
\<close>

datatype turn_status = TurnReturned | AwaitingModel "ConversationMessage list" string

definition missing_key_reply :: string where
  "missing_key_reply = ''Set VITE_GEMINI_API_KEY to use Rubber Ducky.''"

text \<open>
  \<open>processRubberDuckyTranscript\<close> from its call to its first suspension. \<open>hasApiKey\<close> says
  whether \<open>VITE_GEMINI_API_KEY\<close> is set.
\<close>

definition processRubberDuckyTranscript ::
  "bool \<Rightarrow> string \<Rightarrow> voice_state \<Rightarrow> voice_state \<times> turn_status" where
  "processRubberDuckyTranscript hasApiKey userText st =
     (let trimmed = js_trim userText in
      if trimmed = [] then (st, TurnReturned)
      else
        let shouldExit =
              list_ex (\<lambda>p. js_includes (js_toLowerCase trimmed) p) RUBBER_DUCKY_EXIT_PHRASES
        in if shouldExit then (endRubberDuckySession st, TurnReturned)
           else
             let st1 = st\<lparr>conversationHistory :=
                           conversationHistory st @ [\<lparr>role = UserRole, content = trimmed\<rparr>],
                         rubberDuckyStatus := Processing\<rparr>
             in if \<not> hasApiKey
                then (st1\<lparr>conversationHistory :=
                            conversationHistory st1 @
                              [\<lparr>role = ModelRole, content = missing_key_reply\<rparr>],
                          rubberDuckyStatus := Idle\<rparr>, TurnReturned)
                else (st1, AwaitingModel (conversationHistory st) trimmed))"

text \<open>
  The text the transcript effect hands on: \<open>transcript.trim() || voiceTranscript.trim()\<close>.
\<close>

definition finalized_transcript :: "string \<Rightarrow> voice_state \<Rightarrow> string" where
  "finalized_transcript transcript st =
     (if js_trim transcript \<noteq> [] then js_trim transcript else js_trim (voiceTranscript st))"

text \<open>
  The effect that runs when listening has stopped. \<open>isListening\<close> and \<open>transcript\<close> come
  from the speech recognition hook, \<open>voiceMode\<close> says whether the panel's mode is the voice
  mode.
\<close>

definition transcript_effect ::
  "bool \<Rightarrow> bool \<Rightarrow> bool \<Rightarrow> string \<Rightarrow> voice_state \<Rightarrow> voice_state \<times> turn_status" where
  "transcript_effect hasApiKey isListening voiceMode transcript st =
     (if \<not> isListening \<and> pendingTranscriptProcess st \<and> sessionActive st \<and> voiceMode then
        let st1 = st\<lparr>pendingTranscriptProcess := False\<rparr>;
            textToProcess = finalized_transcript transcript st
        in if textToProcess \<noteq> [] then processRubberDuckyTranscript hasApiKey textToProcess st1
           else (st1\<lparr>rubberDuckyStatus := Idle\<rparr>, TurnReturned)
      else (st, TurnReturned))"

text \<open>A session in which the user has just stopped a recording.\<close>

definition example_voice_state :: voice_state where
  "example_voice_state =
     \<lparr>sessionActive = True,
      conversationHistory = [\<lparr>role = UserRole, content = ''why is it slow''\<rparr>,
                             \<lparr>role = ModelRole, content = ''What have you measured?''\<rparr>],
      rubberDuckyStatus = Listening, voiceTranscript = [],
      rubberDuckyContext = Some (''main.py'', ''x = 1''), pendingTranscriptProcess = True\<rparr>"

section \<open>Vibe edit applier: \<open>runVibeTask\<close> (AIPanel.tsx)\<close>

text \<open>
  What the caller of \<open>runVibeTask\<close> can observe: the calls of the state setters and of the
  \<open>onApplyActiveFileChange\<close> callback, in order.
\<close>

datatype vibe_effect =
  SetIsAnalyzing bool
| SetStatusMessage string
| ApplyActiveFileChange string

text \<open>
  A thrown value: whether it is an \<open>Error\<close> instance, and its message. The errors of the
  platform (a rejected \<open>fetch\<close>, a rejected \<open>json()\<close>, the \<open>SyntaxError\<close> of \<open>JSON.parse\<close>,
  the \<open>TypeError\<close> of a property read on \<open>null\<close>) carry messages this code does not choose.
\<close>

datatype thrown = Thrown bool string

text \<open>
  The outcome of the \<open>fetch\<close> call and of \<open>completionResponse.json()\<close>: the status is
  \<open>completionResponse.status\<close>, \<open>ok\<close> is \<open>completionResponse.ok\<close>.
\<close>

datatype body_outcome = JsonRejected thrown | JsonBody json

datatype fetch_outcome = FetchRejected thrown | HttpResponse bool nat body_outcome

text \<open>The platform's parts, as parameters.\<close>

record platform =
  JSON_parse :: "string \<Rightarrow> json option"
  syntax_error_message :: "string \<Rightarrow> string"
  null_read_message :: string
  template_text :: "json \<Rightarrow> string"

text \<open>The decimal digits of a number, as \<open>`${completionResponse.status}`\<close> renders them.\<close>

function decimal :: "nat \<Rightarrow> string" where
  "decimal n =
     (if n < 10 then [char_of (48 + n)]
      else decimal (n div 10) @ [char_of (48 + n mod 10)])"
  by pat_completeness auto
termination
  by (relation "measure id") auto

declare decimal.simps [simp del]

text \<open>
  \<open>raw.replace(/```json\s*/g, "").replace(/```/g, "").trim()\<close>: every match is removed.
\<close>

function strip_all_json_fences :: "string \<Rightarrow> string" where
  "strip_all_json_fences s =
     (case s of
        [] \<Rightarrow> []
      | c # cs \<Rightarrow>
          if take 7 s = ''```json''
          then strip_all_json_fences (dropWhile is_space (drop 7 s))
          else c # strip_all_json_fences cs)"
  by pat_completeness auto
termination
proof (relation "measure length")
  fix s :: string and c cs
  assume "s = c # cs"
  have "length (dropWhile is_space (drop 7 s)) \<le> length (drop 7 s)"
    by (rule length_dropWhile_le)
  then show "(dropWhile is_space (drop 7 s), s) \<in> measure length"
    using \<open>s = c # cs\<close> by simp
qed auto

declare strip_all_json_fences.simps [simp del]

function strip_all_fences :: "string \<Rightarrow> string" where
  "strip_all_fences s =
     (case s of
        [] \<Rightarrow> []
      | c # cs \<Rightarrow>
          if take 3 s = ''```'' then strip_all_fences (drop 3 s)
          else c # strip_all_fences cs)"
  by pat_completeness auto
termination
  by (relation "measure length") auto

declare strip_all_fences.simps [simp del]

definition clean_vibe_text :: "string \<Rightarrow> string" where
  "clean_vibe_text raw = js_trim (strip_all_fences (strip_all_json_fences raw))"

text \<open>
  \<open>x?.[0]\<close> and \<open>x?.name\<close> on a value that may be \<open>undefined\<close> (\<open>None\<close>): \<open>undefined\<close> and
  \<open>null\<close> give \<open>undefined\<close>, otherwise the element or property is read.
\<close>

fun element0 :: "json \<Rightarrow> json option" where
  "element0 (JArray (x # xs)) = Some x"
| "element0 (JString (c # cs)) = Some (JString [c])"
| "element0 (JObject kvs) = map_of (rev kvs) ''0''"
| "element0 v = None"

definition opt_element0 :: "json option \<Rightarrow> json option" where
  "opt_element0 x = (case x of None \<Rightarrow> None | Some JNull \<Rightarrow> None | Some v \<Rightarrow> element0 v)"

definition opt_property :: "json option \<Rightarrow> string \<Rightarrow> json option" where
  "opt_property x k = (case x of None \<Rightarrow> None | Some JNull \<Rightarrow> None | Some v \<Rightarrow> property v k)"

text \<open>\<open>completionJson.choices?.[0]?.message?.content\<close>, for a \<open>completionJson\<close> other than \<open>null\<close>.\<close>

definition completion_content :: "json \<Rightarrow> json option" where
  "completion_content completionJson =
     opt_property (opt_property (opt_element0 (property completionJson ''choices'')) ''message'')
       ''content''"

definition missing_key_error :: thrown where
  "missing_key_error = Thrown True ''Missing VITE_OPENAI_API_KEY in environment.''"

definition credential_message :: string where
  "credential_message = ''Set VITE_OPENAI_API_KEY to use Vibe Coder.''"

definition generic_failure_message :: string where
  "generic_failure_message = ''Failed to apply edits. Try refining the prompt.''"

definition no_edit_message :: string where
  "no_edit_message = ''Agent returned no applicable edit.''"

text \<open>
  The body of the \<open>try\<close> block: the error it throws, or the effects it has when it runs to
  its end or to its \<open>return\<close>. \<open>apiKey\<close> is \<open>import.meta.env.VITE_OPENAI_API_KEY\<close>,
  \<open>None\<close> when it is not defined.
\<close>

definition vibe_try ::
  "platform \<Rightarrow> string option \<Rightarrow> string \<Rightarrow> fetch_outcome \<Rightarrow> thrown + vibe_effect list" where
  "vibe_try pf apiKey fileName outcome =
     (if apiKey = None \<or> apiKey = Some [] then Inl missing_key_error
      else
        (case outcome of
           FetchRejected err \<Rightarrow> Inl err
         | HttpResponse ok status body \<Rightarrow>
             if \<not> ok then Inl (Thrown True (''OpenAI request failed with status '' @ decimal status))
             else
               (case body of
                  JsonRejected err \<Rightarrow> Inl err
                | JsonBody completionJson \<Rightarrow>
                    if completionJson = JNull then Inl (Thrown True (null_read_message pf))
                    else
                      (case completion_content completionJson of
                         Some (JString raw) \<Rightarrow>
                           if js_trim raw = []
                           then Inl (Thrown True ''OpenAI returned an empty response.'')
                           else
                             let cleaned = clean_vibe_text raw in
                             (case JSON_parse pf cleaned of
                                None \<Rightarrow> Inl (Thrown True (syntax_error_message pf cleaned))
                              | Some parsed \<Rightarrow>
                                  if parsed = JNull then Inl (Thrown True (null_read_message pf))
                                  else
                                    (case string_field parsed ''updatedContent'' of
                                       Some (c # cs) \<Rightarrow>
                                         Inr [ApplyActiveFileChange (c # cs),
                                              SetStatusMessage
                                                (case property parsed ''summary'' of
                                                   Some (JString (d # ds)) \<Rightarrow>
                                                     (d # ds) @ '' (updated '' @ fileName @ '')''
                                                 | Some v \<Rightarrow>
                                                     if truthy v
                                                     then template_text pf v @ '' (updated '' @
                                                            fileName @ '')''
                                                     else ''Applied update to '' @ fileName @ ''.''
                                                 | None \<Rightarrow> ''Applied update to '' @ fileName @ ''.'')]
                                     | _ \<Rightarrow> Inr [SetStatusMessage no_edit_message]))
                       | _ \<Rightarrow> Inl (Thrown True ''OpenAI returned an empty response.'')))))"

text \<open>The \<open>catch\<close> block.\<close>

definition vibe_catch :: "thrown \<Rightarrow> vibe_effect list" where
  "vibe_catch err =
     (case err of
        Thrown isError message \<Rightarrow>
          if isError \<and> js_includes message ''VITE_OPENAI_API_KEY''
          then [SetStatusMessage credential_message]
          else [SetStatusMessage generic_failure_message])"

text \<open>
  \<open>runVibeTask\<close>: \<open>promptOverride\<close> is \<open>None\<close> when the argument is not given, \<open>vibePrompt\<close>,
  \<open>fileName\<close> and \<open>code\<close> are the component's values, and the outcome of the request is
  read only where the request is made.
\<close>

definition runVibeTask ::
  "platform \<Rightarrow> string option \<Rightarrow> string \<Rightarrow> string \<Rightarrow> string option \<Rightarrow> string \<Rightarrow> fetch_outcome
     \<Rightarrow> vibe_effect list" where
  "runVibeTask pf apiKey fileName code promptOverride vibePrompt outcome =
     (if fileName = [] \<or> code = [] then [SetStatusMessage ''No active file content available.'']
      else
        let taskPrompt = js_trim (case promptOverride of Some p \<Rightarrow> p | None \<Rightarrow> vibePrompt) in
        if taskPrompt = [] then [SetStatusMessage ''Enter a task prompt first.'']
        else
          [SetIsAnalyzing True, SetStatusMessage ''Generating edits...''] @
          (case vibe_try pf apiKey fileName outcome of
             Inl err \<Rightarrow> vibe_catch err
           | Inr effects \<Rightarrow> effects) @
          [SetIsAnalyzing False])"

text \<open>
  The failures of a request that passed the two input checks: the credential is missing,
  the request is rejected, the response status is not OK, the response body cannot be read
  or is \<open>null\<close>, the response's content is not a non-blank string, the content is not
  JSON or is \<open>null\<close>, or \<open>updatedContent\<close> is missing, not a string or empty.
\<close>

definition key_missing :: "string option \<Rightarrow> bool" where
  "key_missing apiKey = (apiKey = None \<or> apiKey = Some [])"

definition vibe_failure :: "platform \<Rightarrow> string option \<Rightarrow> fetch_outcome \<Rightarrow> bool" where
  "vibe_failure pf apiKey outcome =
     (key_missing apiKey \<or>
      (case outcome of
         FetchRejected err \<Rightarrow> True
       | HttpResponse ok status body \<Rightarrow>
           \<not> ok \<or>
           (case body of
              JsonRejected err \<Rightarrow> True
            | JsonBody completionJson \<Rightarrow>
                completionJson = JNull \<or>
                (case completion_content completionJson of
                   Some (JString raw) \<Rightarrow>
                     js_trim raw = [] \<or>
                     (case JSON_parse pf (clean_vibe_text raw) of
                        None \<Rightarrow> True
                      | Some parsed \<Rightarrow>
                          parsed = JNull \<or>
                          string_field parsed ''updatedContent'' = None \<or>
                          string_field parsed ''updatedContent'' = Some [])
                 | _ \<Rightarrow> True))))"

text \<open>A platform and responses for the examples.\<close>

definition example_platform :: platform where
  "example_platform =
     \<lparr>JSON_parse = (\<lambda>t. if t = ''edit'' then Some (JObject [(''updatedContent'', JString ''x = 1'')])
                         else if t = ''no edit'' then Some (JObject [(''summary'', JString ''nothing'')])
                         else None),
      syntax_error_message = (\<lambda>t. ''Unexpected token''),
      null_read_message = ''Cannot read properties of null'',
      template_text = (\<lambda>v. ''[object Object]'')\<rparr>"

definition completion_with :: "string \<Rightarrow> json" where
  "completion_with raw =
     JObject [(''choices'', JArray [JObject [(''message'', JObject [(''content'', JString raw)])]])]"

section \<open>Properties of the edit trigger\<close>

lemma split_lines_nonempty: "split_lines s \<noteq> []"
  by (induction s) (auto simp: Let_def)

lemma join_lines_Cons: "ls \<noteq> [] \<Longrightarrow> join_lines (l # ls) = l @ CHR 0x0A # join_lines ls"
  by (cases ls) auto

lemma join_lines_cons_hd: "ls \<noteq> [] \<Longrightarrow> join_lines ((c # hd ls) # tl ls) = c # join_lines ls"
  by (cases ls rule: join_lines.cases) auto

lemma join_split_lines: "join_lines (split_lines s) = s"
  by (induction s) (auto simp: Let_def split_lines_nonempty join_lines_Cons join_lines_cons_hd)

lemma split_lines_inj: "split_lines a = split_lines b \<Longrightarrow> a = b"
  by (metis join_split_lines)

lemma lcp_drop_step:
  "n < length bl \<Longrightarrow> n < length al \<Longrightarrow> bl ! n = al ! n \<Longrightarrow>
   longest_common_prefix (drop n bl) (drop n al) =
     bl ! n # longest_common_prefix (drop (Suc n) bl) (drop (Suc n) al)"
proof -
  assume h: "n < length bl" "n < length al" "bl ! n = al ! n"
  have "drop n bl = bl ! n # drop (Suc n) bl"
    using h(1) by (simp add: Cons_nth_drop_Suc)
  moreover have "drop n al = al ! n # drop (Suc n) al"
    using h(2) by (simp add: Cons_nth_drop_Suc)
  ultimately show ?thesis using h(3) by simp
qed

lemma lcp_drop_stop:
  "\<not> (n < length bl \<and> n < length al \<and> bl ! n = al ! n) \<Longrightarrow>
   longest_common_prefix (drop n bl) (drop n al) = []"
proof -
  assume h: "\<not> (n < length bl \<and> n < length al \<and> bl ! n = al ! n)"
  show ?thesis
  proof (cases "n < length bl \<and> n < length al")
    case True
    then have "drop n bl = bl ! n # drop (Suc n) bl" "drop n al = al ! n # drop (Suc n) al"
      by (simp_all add: Cons_nth_drop_Suc)
    with h True show ?thesis by simp
  next
    case False
    then have "drop n bl = [] \<or> drop n al = []" by auto
    then show ?thesis by (cases "drop n bl") auto
  qed
qed

lemma prefix_loop_eq:
  "0 \<le> start \<Longrightarrow>
   prefix_loop bl al start =
     start + int (length (longest_common_prefix (drop (nat start) bl) (drop (nat start) al)))"
proof (induction bl al start rule: prefix_loop.induct)
  case (1 bl al start)
  let ?n = "nat start"
  have s: "start = int ?n" using 1(2) by simp
  show ?case
  proof (cases "start < int (length bl) \<and> start < int (length al) \<and> bl ! ?n = al ! ?n")
    case True
    then have n: "?n < length bl" "?n < length al" "bl ! ?n = al ! ?n" using 1(2) by auto
    have sn: "nat (start + 1) = Suc ?n" using 1(2) by simp
    have "prefix_loop bl al start = prefix_loop bl al (start + 1)"
      using True by (subst prefix_loop.simps) simp
    also have "\<dots> = start + 1 + int (length (longest_common_prefix (drop (Suc ?n) bl) (drop (Suc ?n) al)))"
      using 1(1)[OF True] 1(2) sn by simp
    finally show ?thesis by (simp add: lcp_drop_step[OF n])
  next
    case False
    then have "\<not> (?n < length bl \<and> ?n < length al \<and> bl ! ?n = al ! ?n)"
      using 1(2) by auto
    from lcp_drop_stop[OF this] have "longest_common_prefix (drop ?n bl) (drop ?n al) = []" .
    moreover have "prefix_loop bl al start = start"
      by (subst prefix_loop.simps) (use False in auto)
    ultimately show ?thesis by simp
  qed
qed

lemma lcp_split:
  "\<exists>xs' ys'. xs = longest_common_prefix xs ys @ xs' \<and> ys = longest_common_prefix xs ys @ ys' \<and>
     (xs' = [] \<or> ys' = [] \<or> hd xs' \<noteq> hd ys')"
  by (induction xs ys rule: longest_common_prefix.induct) auto

lemma suffix_loop_eq:
  "0 \<le> start \<Longrightarrow> start - 1 \<le> be \<Longrightarrow> be < int (length bl) \<Longrightarrow>
   start - 1 \<le> ae \<Longrightarrow> ae < int (length al) \<Longrightarrow>
   suffix_loop bl al start be ae =
     (let k = int (length (longest_common_prefix
                (rev (take (nat (be + 1 - start)) (drop (nat start) bl)))
                (rev (take (nat (ae + 1 - start)) (drop (nat start) al)))))
      in (be - k, ae - k))"
proof (induction bl al start be ae rule: suffix_loop.induct)
  case (1 bl al start be ae)
  let ?s = "nat start"
  let ?B = "\<lambda>e. take (nat (e + 1 - start)) (drop ?s bl)"
  let ?A = "\<lambda>e. take (nat (e + 1 - start)) (drop ?s al)"
  have seg: "\<And>(xs::string list) e. start \<le> e \<Longrightarrow> e < int (length xs) \<Longrightarrow>
      take (nat (e + 1 - start)) (drop ?s xs) = take (nat (e - start)) (drop ?s xs) @ [xs ! nat e]"
  proof -
    fix xs :: "string list" and e assume h: "start \<le> e" "e < int (length xs)"
    have "nat (e + 1 - start) = Suc (nat (e - start))" using h by simp
    moreover have "nat (e - start) < length (drop ?s xs)" using h 1(2) by simp
    moreover have "drop ?s xs ! nat (e - start) = xs ! nat e"
      using h 1(2) by (simp add: nat_diff_distrib' nat_le_iff)
    ultimately show "take (nat (e + 1 - start)) (drop ?s xs) = take (nat (e - start)) (drop ?s xs) @ [xs ! nat e]"
      by (simp add: take_Suc_conv_app_nth)
  qed
  show ?case
  proof (cases "be \<ge> start \<and> ae \<ge> start \<and> bl ! nat be = al ! nat ae")
    case True
    have "suffix_loop bl al start be ae = suffix_loop bl al start (be - 1) (ae - 1)"
      using True by (subst suffix_loop.simps) simp
    also have "\<dots> = (let k = int (length (longest_common_prefix (rev (?B (be - 1))) (rev (?A (ae - 1)))))
        in (be - 1 - k, ae - 1 - k))"
      using 1(1)[OF True] 1(2-) True by simp
    finally show ?thesis
      using True seg[of be bl] seg[of ae al] 1(2-) by (simp add: Let_def)
  next
    case False
    have "longest_common_prefix (rev (?B be)) (rev (?A ae)) = []"
    proof (cases "be \<ge> start \<and> ae \<ge> start")
      case True
      with False seg[of be bl] seg[of ae al] 1(2-) show ?thesis by simp
    next
      case False
      then have "?B be = [] \<or> ?A ae = []" using 1(2-) by auto
      then show ?thesis by (cases "rev (?B be)") auto
    qed
    moreover have "suffix_loop bl al start be ae = (be, ae)"
      by (subst suffix_loop.simps) (use False in auto)
    ultimately show ?thesis by (simp add: Let_def)
  qed
qed


lemma lcp_same: "longest_common_prefix xs xs = xs"
  by (induction xs) auto

lemma lcp_length_le: "length (longest_common_prefix xs ys) \<le> length xs"
  "length (longest_common_prefix xs ys) \<le> length ys"
  using longest_common_prefix_prefix1[of xs ys] longest_common_prefix_prefix2[of xs ys]
  by (auto simp: prefix_length_le)

lemma lcs_length_le: "length (longest_common_suffix xs ys) \<le> length xs"
  "length (longest_common_suffix xs ys) \<le> length ys"
  using lcp_length_le[of "rev xs" "rev ys"] by (simp_all add: longest_common_suffix_def)

lemma countChangedLines_trimmed:
  "countChangedLines before after = int (trimmed_magnitude before after)"
proof (cases "before = after")
  case True
  then show ?thesis
    by (simp add: countChangedLines_def trimmed_magnitude_def Let_def lcp_same)
next
  case False
  define bl where "bl = split_lines before"
  define al where "al = split_lines after"
  define p where "p = longest_common_prefix bl al"
  define bl' where "bl' = drop (length p) bl"
  define al' where "al' = drop (length p) al"
  define k where "k = length (longest_common_suffix bl' al')"
  have start: "prefix_loop bl al 0 = int (length p)"
    using prefix_loop_eq[of 0 bl al] by (simp add: p_def)
  have pl: "length p \<le> length bl" "length p \<le> length al"
    using lcp_length_le[of bl al] by (simp_all add: p_def)
  have kl: "k \<le> length bl'" "k \<le> length al'"
    using lcs_length_le[of bl' al'] by (simp_all add: k_def)
  have tb: "take (nat (int (length bl) - 1 + 1 - int (length p))) (drop (nat (int (length p))) bl) = bl'"
    by (simp add: bl'_def)
  have ta: "take (nat (int (length al) - 1 + 1 - int (length p))) (drop (nat (int (length p))) al) = al'"
    by (simp add: al'_def)
  have suf: "suffix_loop bl al (int (length p)) (int (length bl) - 1) (int (length al) - 1) =
      (int (length bl) - 1 - int k, int (length al) - 1 - int k)"
    using suffix_loop_eq[of "int (length p)" "int (length bl) - 1" bl "int (length al) - 1" al] pl
    unfolding tb ta by (simp add: Let_def k_def longest_common_suffix_def)
  have "countChangedLines before after =
      max (max 0 (int (length bl) - 1 - int k - int (length p) + 1))
          (max 0 (int (length al) - 1 - int k - int (length p) + 1))"
    using False by (simp add: countChangedLines_def Let_def start suf flip: bl_def al_def)
  also have "\<dots> = int (max (length bl' - k) (length al' - k))"
    using kl pl by (auto simp: bl'_def al'_def max_def)
  also have "\<dots> = int (trimmed_magnitude before after)"
    by (simp add: trimmed_magnitude_def Let_def k_def bl'_def al'_def p_def bl_def al_def)
  finally show ?thesis .
qed

lemma lcs_suffix: "suffix (longest_common_suffix xs ys) xs" "suffix (longest_common_suffix xs ys) ys"
  using longest_common_prefix_prefix1[of "rev xs" "rev ys"] longest_common_prefix_prefix2[of "rev xs" "rev ys"]
  by (simp_all add: longest_common_suffix_def suffix_to_prefix)

lemma lcs_max_suffix:
  "suffix s xs \<Longrightarrow> suffix s ys \<Longrightarrow> suffix s (longest_common_suffix xs ys)"
  using longest_common_prefix_max_prefix[of "rev s" "rev xs" "rev ys"]
  by (simp add: longest_common_suffix_def suffix_to_prefix)

lemma suffix_full: "suffix s xs \<Longrightarrow> length xs \<le> length s \<Longrightarrow> s = xs"
  by (auto simp: suffix_def)

lemma trimmed_magnitude_zero: "trimmed_magnitude before after = 0 \<Longrightarrow> before = after"
proof -
  assume z: "trimmed_magnitude before after = 0"
  define bl where "bl = split_lines before"
  define al where "al = split_lines after"
  define p where "p = longest_common_prefix bl al"
  define s where "s = longest_common_suffix (drop (length p) bl) (drop (length p) al)"
  from z have m: "max (length (drop (length p) bl) - length s) (length (drop (length p) al) - length s) = 0"
    by (simp only: trimmed_magnitude_def Let_def s_def p_def bl_def al_def)
  have "length (drop (length p) bl) \<le> length s" "length (drop (length p) al) \<le> length s"
    using m by (auto simp: max_def split: if_splits)
  with lcs_suffix[of "drop (length p) bl" "drop (length p) al"]
  have "s = drop (length p) bl" "s = drop (length p) al"
    unfolding s_def[symmetric] by (auto intro: suffix_full)
  moreover have "take (length p) bl = p" "take (length p) al = p"
    using longest_common_prefix_prefix1[of bl al] longest_common_prefix_prefix2[of bl al]
    unfolding p_def prefix_def by (metis append_eq_conv_conj)+
  ultimately have "bl = al" by (metis append_take_drop_id)
  then show ?thesis unfolding bl_def al_def by (rule split_lines_inj)
qed

text \<open>
  Claim C5. \<open>countChangedLines\<close> computes the magnitude of the specification: the larger
  of the two line counts that remain after trimming the longest common prefix of the two
  line lists and then the longest common suffix of the remainders. It is 0 on identical
  texts, and it is 0 only on identical texts.
\<close>

theorem countChangedLines_magnitude: "countChangedLines before after = int (trimmed_magnitude before after) \<and>
   countChangedLines x x = 0 \<and>
   (countChangedLines before after = 0) = (before = after)"
proof -
  have "countChangedLines before after = 0 \<Longrightarrow> before = after"
    using trimmed_magnitude_zero[of before after] by (simp add: countChangedLines_trimmed)
  moreover have "\<And>y. countChangedLines y y = 0" by (simp add: countChangedLines_def)
  ultimately show ?thesis using countChangedLines_trimmed by blast
qed

lemma prefix_loop_sym: "prefix_loop bl al start = prefix_loop al bl start"
proof (induction bl al start rule: prefix_loop.induct)
  case (1 bl al start)
  show ?case
    using 1 by (subst prefix_loop.simps, subst (2) prefix_loop.simps) auto
qed

lemma suffix_loop_sym:
  "suffix_loop bl al start be ae = prod.swap (suffix_loop al bl start ae be)"
proof (induction bl al start be ae rule: suffix_loop.induct)
  case (1 bl al start be ae)
  show ?case
    using 1 by (subst suffix_loop.simps, subst (2) suffix_loop.simps) auto
qed

text \<open>
  Claim C10. \<open>countChangedLines\<close> is symmetric: both loops and the final maximum are
  invariant under swapping the two texts.
\<close>

theorem countChangedLines_symmetric: "countChangedLines a b = countChangedLines b a"
proof (cases "a = b")
  case True then show ?thesis by simp
next
  case False
  obtain be ae where s: "suffix_loop (split_lines b) (split_lines a) (prefix_loop (split_lines b) (split_lines a) 0)
      (int (length (split_lines b)) - 1) (int (length (split_lines a)) - 1) = (be, ae)"
    by (cases "suffix_loop (split_lines b) (split_lines a) (prefix_loop (split_lines b) (split_lines a) 0)
      (int (length (split_lines b)) - 1) (int (length (split_lines a)) - 1)") auto
  then have s': "suffix_loop (split_lines a) (split_lines b) (prefix_loop (split_lines b) (split_lines a) 0)
      (int (length (split_lines a)) - 1) (int (length (split_lines b)) - 1) = (ae, be)"
    by (subst suffix_loop_sym) simp
  from False have "b \<noteq> a" by auto
  with False show ?thesis
    unfolding countChangedLines_def Let_def prefix_loop_sym[of "split_lines a" "split_lines b"] s s'
    by (simp add: max.commute)
qed

subsection \<open>The threshold-based preview refresh\<close>

lemma countChangedLines_nonneg: "0 \<le> countChangedLines before after"
  by (simp add: countChangedLines_trimmed)

lemma handleCodeChange_step:
  "0 \<le> pending_changes st \<Longrightarrow> pending_changes st < AI_REFRESH_LINE_THRESHOLD \<Longrightarrow>
   (let n = pending_changes st + countChangedLines (current_content st) newCode;
        st' = handleCodeChange newCode st
    in aiPanelCodeCalls st' =
         (if n \<ge> AI_REFRESH_LINE_THRESHOLD then aiPanelCodeCalls st @ [newCode]
          else aiPanelCodeCalls st) \<and>
       aiPanelCode st' = (if n \<ge> AI_REFRESH_LINE_THRESHOLD then newCode else aiPanelCode st) \<and>
       pending_changes st' = (if n \<ge> AI_REFRESH_LINE_THRESHOLD then 0 else n) \<and>
       current_content st' = newCode \<and> currentFile st' = currentFile st)"
  using countChangedLines_nonneg[of "current_content st" newCode]
  by (auto simp: handleCodeChange_def Let_def pending_changes_def current_content_def
        AI_REFRESH_LINE_THRESHOLD_def split: option.splits)

text \<open>
  Claim C6. While the accumulator of the active file is below the threshold (an invariant
  of the handler, which starts from an empty accumulator), an edit calls
  \<open>setAiPanelCode\<close> exactly when the accumulator plus the edit's magnitude reaches the
  threshold 5; the call passes the new content and the accumulator is then 0, otherwise the
  accumulator holds the sum. In particular, from accumulator 0, three edits of magnitudes
  3, 0 and 3 (accumulated 3, 3, 6) cause no refresh at the first and second edit and
  exactly one refresh, with the third edit's content, at the third edit, after which the
  accumulator is 0.
\<close>

theorem handleCodeChange_threshold_refresh:
  "(0 \<le> pending_changes st \<and> pending_changes st < AI_REFRESH_LINE_THRESHOLD \<longrightarrow>
      (let n = pending_changes st + countChangedLines (current_content st) newCode;
           st' = handleCodeChange newCode st
       in aiPanelCodeCalls st' =
            (if n \<ge> AI_REFRESH_LINE_THRESHOLD then aiPanelCodeCalls st @ [newCode]
             else aiPanelCodeCalls st) \<and>
          aiPanelCode st' = (if n \<ge> AI_REFRESH_LINE_THRESHOLD then newCode else aiPanelCode st) \<and>
          pending_changes st' = (if n \<ge> AI_REFRESH_LINE_THRESHOLD then 0 else n) \<and>
          0 \<le> pending_changes st' \<and> pending_changes st' < AI_REFRESH_LINE_THRESHOLD)) \<and>
   (pending_changes st = 0 \<and>
    countChangedLines (current_content st) c1 = 3 \<and>
    countChangedLines c1 c2 = 0 \<and>
    countChangedLines c2 c3 = 3 \<longrightarrow>
      (let s1 = handleCodeChange c1 st;
           s2 = handleCodeChange c2 s1;
           s3 = handleCodeChange c3 s2
       in aiPanelCodeCalls s1 = aiPanelCodeCalls st \<and> pending_changes s1 = 3 \<and>
          aiPanelCodeCalls s2 = aiPanelCodeCalls st \<and> pending_changes s2 = 3 \<and>
          aiPanelCodeCalls s3 = aiPanelCodeCalls st @ [c3] \<and> aiPanelCode s3 = c3 \<and>
          pending_changes s3 = 0))"
proof (intro conjI impI)
  assume inv: "0 \<le> pending_changes st \<and> pending_changes st < AI_REFRESH_LINE_THRESHOLD"
  show "let n = pending_changes st + countChangedLines (current_content st) newCode;
           st' = handleCodeChange newCode st
       in aiPanelCodeCalls st' =
            (if n \<ge> AI_REFRESH_LINE_THRESHOLD then aiPanelCodeCalls st @ [newCode]
             else aiPanelCodeCalls st) \<and>
          aiPanelCode st' = (if n \<ge> AI_REFRESH_LINE_THRESHOLD then newCode else aiPanelCode st) \<and>
          pending_changes st' = (if n \<ge> AI_REFRESH_LINE_THRESHOLD then 0 else n) \<and>
          0 \<le> pending_changes st' \<and> pending_changes st' < AI_REFRESH_LINE_THRESHOLD"
    using handleCodeChange_step[of st newCode] inv
      countChangedLines_nonneg[of "current_content st" newCode]
    by (auto simp: Let_def AI_REFRESH_LINE_THRESHOLD_def)
next
  assume h: "pending_changes st = 0 \<and> countChangedLines (current_content st) c1 = 3 \<and>
    countChangedLines c1 c2 = 0 \<and> countChangedLines c2 c3 = 3"
  define s1 where "s1 = handleCodeChange c1 st"
  define s2 where "s2 = handleCodeChange c2 s1"
  define s3 where "s3 = handleCodeChange c3 s2"
  have 1: "aiPanelCodeCalls s1 = aiPanelCodeCalls st" "pending_changes s1 = 3"
    "current_content s1 = c1"
    using handleCodeChange_step[of st c1] h
    by (simp_all add: Let_def AI_REFRESH_LINE_THRESHOLD_def s1_def)
  have 2: "aiPanelCodeCalls s2 = aiPanelCodeCalls st" "pending_changes s2 = 3"
    "current_content s2 = c2"
    using handleCodeChange_step[of s1 c2] h 1
    by (simp_all add: Let_def AI_REFRESH_LINE_THRESHOLD_def s2_def)
  have 3: "aiPanelCodeCalls s3 = aiPanelCodeCalls st @ [c3]" "aiPanelCode s3 = c3"
    "pending_changes s3 = 0"
    using handleCodeChange_step[of s2 c3] h 2
    by (simp_all add: Let_def AI_REFRESH_LINE_THRESHOLD_def s3_def)
  show "let s1 = handleCodeChange c1 st;
           s2 = handleCodeChange c2 s1;
           s3 = handleCodeChange c3 s2
       in aiPanelCodeCalls s1 = aiPanelCodeCalls st \<and> pending_changes s1 = 3 \<and>
          aiPanelCodeCalls s2 = aiPanelCodeCalls st \<and> pending_changes s2 = 3 \<and>
          aiPanelCodeCalls s3 = aiPanelCodeCalls st @ [c3] \<and> aiPanelCode s3 = c3 \<and>
          pending_changes s3 = 0"
    using 1 2 3 unfolding s1_def s2_def s3_def Let_def by simp
qed

lemma example_app_state_pending: "pending_changes example_app_state = 0"
  by (simp add: pending_changes_def example_app_state_def)

lemma example_app_state_content:
  "current_content example_app_state = join_lines [''a'', ''b'', ''c'']"
  by (simp add: current_content_def example_app_state_def)

lemma example_edit_magnitudes:
  "countChangedLines (join_lines [''a'', ''b'', ''c'']) (join_lines [''x'', ''y'', ''z'']) = 3"
  "countChangedLines (join_lines [''x'', ''y'', ''z'']) (join_lines [''x'', ''y'', ''z'']) = 0"
  "countChangedLines (join_lines [''x'', ''y'', ''z'']) (join_lines [''1'', ''2'', ''3'']) = 3"
  by code_simp+

theorem handleCodeChange_threshold_refresh_witness:
  "pending_changes example_app_state = 0 \<and>
   countChangedLines (current_content example_app_state) (join_lines [''x'', ''y'', ''z'']) = 3 \<and>
   aiPanelCodeCalls (handleCodeChange (join_lines [''x'', ''y'', ''z'']) example_app_state) = [] \<and>
   aiPanelCodeCalls
     (handleCodeChange (join_lines [''1'', ''2'', ''3''])
       (handleCodeChange (join_lines [''x'', ''y'', ''z''])
         (handleCodeChange (join_lines [''x'', ''y'', ''z'']) example_app_state))) =
     [join_lines [''1'', ''2'', ''3'']] \<and>
   pending_changes
     (handleCodeChange (join_lines [''1'', ''2'', ''3''])
       (handleCodeChange (join_lines [''x'', ''y'', ''z''])
         (handleCodeChange (join_lines [''x'', ''y'', ''z'']) example_app_state))) = 0"
  using handleCodeChange_threshold_refresh
    [of example_app_state "join_lines [''x'', ''y'', ''z'']" "join_lines [''x'', ''y'', ''z'']"
      "join_lines [''x'', ''y'', ''z'']" "join_lines [''1'', ''2'', ''3'']"]
    example_edit_magnitudes
  by (simp add: example_app_state_pending example_app_state_content Let_def
      AI_REFRESH_LINE_THRESHOLD_def)
     (simp add: example_app_state_def)

subsection \<open>Batching\<close>

lemma concat_batches_from: "concat (batches_from i xs) = drop i xs"
proof (induction i xs rule: batches_from.induct)
  case (1 i xs)
  show ?case
  proof (cases "i < length xs")
    case True
    have "concat (batches_from i xs) = take batchSize (drop i xs) @ drop (i + batchSize) xs"
      using True 1 by (subst batches_from.simps) simp
    also have "\<dots> = drop i xs"
      by (metis add.commute append_take_drop_id drop_drop)
    finally show ?thesis .
  next
    case False
    then show ?thesis by (subst batches_from.simps) simp
  qed
qed

lemma batches_from_sizes:
  "\<forall>b \<in> set (batches_from i xs). 0 < length b \<and> length b \<le> batchSize"
proof (induction i xs rule: batches_from.induct)
  case (1 i xs)
  show ?case
  proof (cases "i < length xs")
    case True
    then show ?thesis using 1 by (subst batches_from.simps) (auto simp: batchSize_def)
  next
    case False
    then show ?thesis by (subst batches_from.simps) simp
  qed
qed

lemma batches_from_full:
  "k + 1 < length (batches_from i xs) \<Longrightarrow> length (batches_from i xs ! k) = batchSize"
proof (induction i xs arbitrary: k rule: batches_from.induct)
  case (1 i xs)
  show ?case
  proof (cases "i < length xs")
    case True
    have eq: "batches_from i xs = take batchSize (drop i xs) # batches_from (i + batchSize) xs"
      using True by (subst batches_from.simps) simp
    show ?thesis
    proof (cases k)
      case 0
      with 1(2) eq have "batches_from (i + batchSize) xs \<noteq> []" by auto
      then have "i + batchSize < length xs"
        by (subst (asm) batches_from.simps) (auto split: if_splits)
      then show ?thesis using 0 eq by simp
    next
      case (Suc k')
      with 1(2) eq have "k' + 1 < length (batches_from (i + batchSize) xs)" by simp
      from 1(1)[OF True this] show ?thesis using Suc eq by simp
    qed
  next
    case False
    then have "batches_from i xs = []" by (subst batches_from.simps) simp
    with 1(2) show ?thesis by simp
  qed
qed

lemma batches_single: "0 < length xs \<Longrightarrow> length xs \<le> batchSize \<Longrightarrow> batches xs = [xs]"
  unfolding batches_def
  by (subst batches_from.simps, subst batches_from.simps) (simp add: batchSize_def)

text \<open>
  Claim C9. The batches of a unit list are non-empty, hold at most 5 units each, every
  batch but the last holds exactly 5, and their concatenation in order is the unit list
  itself (so order is preserved). A list of two units gives exactly one batch holding
  both units in their original order.
\<close>

theorem batches_partition:
  "concat (batches units) = units \<and>
   (\<forall>b \<in> set (batches units). 0 < length b \<and> length b \<le> 5) \<and>
   (\<forall>k. k + 1 < length (batches units) \<longrightarrow> length (batches units ! k) = 5) \<and>
   (length units = 2 \<longrightarrow> batches units = [units] \<and> batches units = [[units ! 0, units ! 1]])"
proof (intro conjI allI impI)
  show "concat (batches units) = units"
    by (simp add: batches_def concat_batches_from)
  show "\<forall>b \<in> set (batches units). 0 < length b \<and> length b \<le> 5"
    using batches_from_sizes[of 0 units] by (simp add: batches_def batchSize_def)
  show "length (batches units ! k) = 5" if "k + 1 < length (batches units)" for k
    using batches_from_full[of k 0 units] that by (simp add: batches_def batchSize_def)
  assume two: "length units = 2"
  then show "batches units = [units]" by (simp add: batches_single batchSize_def)
  from two obtain a b where "units = [a, b]"
    by (cases units; cases "tl units") (auto simp: length_Suc_conv)
  then show "batches units = [[units ! 0, units ! 1]]"
    by (simp add: batches_single batchSize_def)
qed

theorem batches_partition_witness:
  "length (extractPythonFunctions example_source) = 2 \<and>
   batches (extractPythonFunctions example_source) = [extractPythonFunctions example_source] \<and>
   map (map functionName) (batches (extractPythonFunctions example_source)) = [[''f'', ''g'']] \<and>
   length (batches [''a'', ''b'', ''c'', ''d'', ''e'', ''f'', ''g''] ! 0) = 5 \<and>
   concat (batches [''a'', ''b'', ''c'', ''d'', ''e'', ''f'', ''g'']) =
     [''a'', ''b'', ''c'', ''d'', ''e'', ''f'', ''g'']"
proof -
  have two: "length (extractPythonFunctions example_source) = 2" by code_simp
  have names: "map functionName (extractPythonFunctions example_source) = [''f'', ''g'']"
    by code_simp
  have len: "0 + 1 < length (batches [''a'', ''b'', ''c'', ''d'', ''e'', ''f'', ''g''])"
    by code_simp
  show ?thesis
    using batches_partition[of "extractPythonFunctions example_source"] two names
      batches_partition[of "[''a'', ''b'', ''c'', ''d'', ''e'', ''f'', ''g'']"] len
    by auto
qed

section \<open>Properties of the unit extractor\<close>

lemma js_trim_empty_iff: "js_trim s = [] \<longleftrightarrow> dropWhile is_space s = []"
proof
  assume "dropWhile is_space s = []"
  then show "js_trim s = []" unfolding js_trim_def by (simp del: dropWhile_eq_Nil_conv)
next
  assume t: "js_trim s = []"
  show "dropWhile is_space s = []"
  proof (rule ccontr)
    assume ne: "dropWhile is_space s \<noteq> []"
    then have "\<not> is_space (hd (dropWhile is_space s))" by (rule hd_dropWhile)
    moreover have "hd (dropWhile is_space s) \<in> set (rev (dropWhile is_space s))"
      using ne by simp
    ultimately have "dropWhile is_space (rev (dropWhile is_space s)) \<noteq> []"
      by (metis dropWhile_eq_Nil_conv)
    with t show False by (simp add: js_trim_def)
  qed
qed

lemma defMatch_starts_def: "defMatch l \<noteq> None \<Longrightarrow> take 3 (dropWhile is_space l) = ''def''"
  by (auto simp: defMatch_def Let_def split: if_splits)

lemma defMatch_not_decorator: "defMatch l \<noteq> None \<Longrightarrow> \<not> decoratorMatch l"
  by (drule defMatch_starts_def) (auto simp: decoratorMatch_def split: list.splits)

lemma defMatch_nonblank: "defMatch l \<noteq> None \<Longrightarrow> js_trim l \<noteq> []"
proof -
  assume "defMatch l \<noteq> None"
  then have "take 3 (dropWhile is_space l) = ''def''" by (rule defMatch_starts_def)
  then have "dropWhile is_space l \<noteq> []" by (cases "dropWhile is_space l") simp_all
  then show ?thesis using js_trim_empty_iff by blast
qed

subsection \<open>The two inner loops\<close>

lemma body_loop_ge: "e \<le> body_loop ls d e"
proof (induction ls d e rule: body_loop.induct)
  case (1 ls d e)
  show ?case
  proof (cases "e < length ls")
    case True
    then show ?thesis
      using 1 by (subst body_loop.simps) (auto simp: Let_def intro: Suc_leD)
  next
    case False
    then show ?thesis by (subst body_loop.simps) simp
  qed
qed

lemma body_loop_le: "e \<le> length ls \<Longrightarrow> body_loop ls d e \<le> length ls"
proof (induction ls d e rule: body_loop.induct)
  case (1 ls d e)
  show ?case
  proof (cases "e < length ls")
    case True
    then show ?thesis
      using 1 by (subst body_loop.simps) (auto simp: Let_def)
  next
    case False
    then show ?thesis using 1(3) by (subst body_loop.simps) simp
  qed
qed

lemma body_loop_inside:
  "e \<le> k \<Longrightarrow> k < body_loop ls d e \<Longrightarrow> js_trim (ls ! k) = [] \<or> d < normalizeIndent (ls ! k)"
proof (induction ls d e rule: body_loop.induct)
  case (1 ls d e)
  show ?case
  proof (cases "e < length ls")
    case True
    note lt = this
    show ?thesis
    proof (cases "js_trim (ls ! e) \<noteq> [] \<and> normalizeIndent (ls ! e) \<le> d")
      case True
      then have "body_loop ls d e = e"
        using lt by (subst body_loop.simps) (auto simp: Let_def)
      with 1(3,4) show ?thesis by simp
    next
      case False
      then have eq: "body_loop ls d e = body_loop ls d (e + 1)"
        using lt by (subst body_loop.simps) (auto simp: Let_def)
      show ?thesis
      proof (cases "k = e")
        case True
        with False show ?thesis by auto
      next
        case ne: False
        then have "e + 1 \<le> k" using 1(3) by simp
        moreover have "k < body_loop ls d (e + 1)" using 1(4) eq by simp
        ultimately show ?thesis
          using 1(1)[OF lt refl] 1(2)[OF lt refl] False by (cases "js_trim (ls ! e) = []") auto
      qed
    qed
  next
    case False
    then have "body_loop ls d e = e" by (subst body_loop.simps) simp
    with 1(3,4) show ?thesis by simp
  qed
qed

lemma body_loop_stop:
  "body_loop ls d e < length ls \<Longrightarrow>
   js_trim (ls ! body_loop ls d e) \<noteq> [] \<and> normalizeIndent (ls ! body_loop ls d e) \<le> d"
proof (induction ls d e rule: body_loop.induct)
  case (1 ls d e)
  show ?case
  proof (cases "e < length ls")
    case True
    note lt = this
    show ?thesis
    proof (cases "js_trim (ls ! e) \<noteq> [] \<and> normalizeIndent (ls ! e) \<le> d")
      case True
      then have "body_loop ls d e = e"
        using lt by (subst body_loop.simps) (auto simp: Let_def)
      with True show ?thesis by simp
    next
      case False
      then have eq: "body_loop ls d e = body_loop ls d (e + 1)"
        using lt by (subst body_loop.simps) (auto simp: Let_def)
      show ?thesis
        using 1(1)[OF lt refl] 1(2)[OF lt refl] False 1(3) unfolding eq
        by (cases "js_trim (ls ! e) = []") auto
    qed
  next
    case False
    then have "body_loop ls d e = e" by (subst body_loop.simps) simp
    with 1(3) False show ?thesis by simp
  qed
qed

lemma decorator_loop_le: "decorator_loop ls d k \<le> k"
  by (induction k) (auto simp: Let_def)

lemma decorator_loop_between:
  "decorator_loop ls d k \<le> j \<Longrightarrow> j < k \<Longrightarrow>
   js_trim (ls ! j) \<noteq> [] \<and> decoratorMatch (ls ! j) \<and> normalizeIndent (ls ! j) = d"
proof (induction k)
  case 0
  then show ?case by simp
next
  case (Suc k)
  show ?case
  proof (cases "js_trim (ls ! k) \<noteq> [] \<and> decoratorMatch (ls ! k) \<and> normalizeIndent (ls ! k) = d")
    case True
    then have eq: "decorator_loop ls d (Suc k) = decorator_loop ls d k" by (simp add: Let_def)
    show ?thesis
    proof (cases "j = k")
      case True
      with \<open>js_trim (ls ! k) \<noteq> [] \<and> decoratorMatch (ls ! k) \<and> normalizeIndent (ls ! k) = d\<close>
      show ?thesis by simp
    next
      case False
      with Suc eq show ?thesis by simp
    qed
  next
    case False
    then have "decorator_loop ls d (Suc k) = Suc k" by (auto simp: Let_def)
    with Suc(2,3) show ?thesis by simp
  qed
qed

lemma decorator_loop_first_nonblank:
  "k < length ls \<Longrightarrow> js_trim (ls ! k) \<noteq> [] \<Longrightarrow> js_trim (ls ! decorator_loop ls d k) \<noteq> []"
  using decorator_loop_between[of ls d k "decorator_loop ls d k"] decorator_loop_le[of ls d k]
  by (cases "decorator_loop ls d k = k") auto

subsection \<open>The outer loop\<close>

lemma decorator_lower:
  assumes b: "barrier ls lo" and lo: "lo \<le> j" and j: "j < length ls"
    and m: "defMatch (ls ! j) \<noteq> None"
  shows "lo \<le> decorator_loop ls (normalizeIndent (ls ! j)) j"
proof (rule ccontr)
  let ?d = "normalizeIndent (ls ! j)"
  let ?r = "decorator_loop ls ?d j"
  assume "\<not> lo \<le> ?r"
  then have r: "?r < lo" by simp
  then have above: "?r \<le> lo - 1" "lo - 1 < j" "0 < lo" using lo by auto
  from decorator_loop_between[OF above(1,2)]
  have prev: "js_trim (ls ! (lo - 1)) \<noteq> []" "decoratorMatch (ls ! (lo - 1))"
    "normalizeIndent (ls ! (lo - 1)) = ?d" by auto
  with b above(3) lo j have less: "normalizeIndent (ls ! lo) < ?d"
    by (auto simp: barrier_def)
  show False
  proof (cases "lo = j")
    case True
    with less show False by simp
  next
    case False
    with lo r have "?r \<le> lo" "lo < j" by auto
    from decorator_loop_between[OF this] less show False by simp
  qed
qed

lemma barrier_after:
  assumes i: "i < length ls" and m: "defMatch (ls ! i) \<noteq> None"
  shows "barrier ls (body_loop ls (normalizeIndent (ls ! i)) (i + 1))"
proof -
  let ?d = "normalizeIndent (ls ! i)"
  let ?e = "body_loop ls ?d (i + 1)"
  have ge: "i + 1 \<le> ?e" by (rule body_loop_ge)
  show ?thesis
  proof (cases "?e < length ls")
    case False
    then show ?thesis by (simp add: barrier_def)
  next
    case True
    from body_loop_stop[OF True]
    have stop: "js_trim (ls ! ?e) \<noteq> []" "normalizeIndent (ls ! ?e) \<le> ?d" by auto
    show ?thesis
    proof (cases "?e = i + 1")
      case True
      then have "\<not> decoratorMatch (ls ! (?e - 1))"
        using defMatch_not_decorator[OF m] by simp
      then show ?thesis by (simp add: barrier_def)
    next
      case False
      with ge have "i + 1 \<le> ?e - 1" "?e - 1 < ?e" by auto
      from body_loop_inside[OF this]
      have "js_trim (ls ! (?e - 1)) = [] \<or> ?d < normalizeIndent (ls ! (?e - 1))" .
      with stop show ?thesis by (auto simp: barrier_def)
    qed
  qed
qed

lemma extract_loop_skip:
  "i < length ls \<Longrightarrow> defMatch (ls ! i) = None \<Longrightarrow> extract_loop ls i = extract_loop ls (i + 1)"
  by (subst extract_loop.simps) simp

lemma extract_loop_unit:
  "i < length ls \<Longrightarrow> defMatch (ls ! i) \<noteq> None \<Longrightarrow>
   extract_loop ls i =
     (decorator_loop ls (normalizeIndent (ls ! i)) i,
      body_loop ls (normalizeIndent (ls ! i)) (i + 1),
      \<lparr>functionName = the (defMatch (ls ! i)),
       source = join_lines (slice (decorator_loop ls (normalizeIndent (ls ! i)) i)
                  (body_loop ls (normalizeIndent (ls ! i)) (i + 1)) ls)\<rparr>)
     # extract_loop ls (body_loop ls (normalizeIndent (ls ! i)) (i + 1))"
  by (subst extract_loop.simps) (auto simp: Let_def)

lemma extract_loop_end: "\<not> i < length ls \<Longrightarrow> extract_loop ls i = []"
  by (subst extract_loop.simps) simp

lemma extract_loop_spans:
  "lo \<le> i \<Longrightarrow> barrier ls lo \<Longrightarrow>
   (\<forall>sp \<in> set (extract_loop ls i).
      lo \<le> span_start sp \<and> span_start sp < span_end sp \<and> span_end sp \<le> length ls) \<and>
   sorted_wrt (\<lambda>a b. span_end a \<le> span_start b) (extract_loop ls i)"
proof (induction ls i arbitrary: lo rule: extract_loop.induct)
  case (1 ls i)
  show ?case
  proof (cases "i < length ls")
    case False
    then show ?thesis by (simp add: extract_loop_end)
  next
    case True
    note lt = this
    show ?thesis
    proof (cases "defMatch (ls ! i) = None")
      case True
      have "lo \<le> i + 1" using 1(3) by simp
      from 1(1)[OF lt True this 1(4)] show ?thesis
        by (simp add: extract_loop_skip[OF lt True])
    next
      case False
      let ?d = "normalizeIndent (ls ! i)"
      let ?s = "decorator_loop ls ?d i"
      let ?e = "body_loop ls ?d (i + 1)"
      have s_lo: "lo \<le> ?s" by (rule decorator_lower[OF 1(4) 1(3) lt False])
      have s_i: "?s \<le> i" by (rule decorator_loop_le)
      have e_i: "i + 1 \<le> ?e" by (rule body_loop_ge)
      have e_len: "?e \<le> length ls" using lt by (intro body_loop_le) simp
      have rest: "(\<forall>sp \<in> set (extract_loop ls ?e).
          ?e \<le> span_start sp \<and> span_start sp < span_end sp \<and> span_end sp \<le> length ls) \<and>
        sorted_wrt (\<lambda>a b. span_end a \<le> span_start b) (extract_loop ls ?e)"
        by (rule 1(2)[OF lt False refl refl refl order_refl barrier_after[OF lt False]])
      have lo_e: "lo \<le> ?e" using s_lo s_i e_i by simp
      show ?thesis
        unfolding extract_loop_unit[OF lt False]
        using rest s_lo s_i e_i e_len lo_e
        by (auto simp: span_start_def span_end_def)
    qed
  qed
qed


lemma barrier_0: "barrier ls 0"
  by (simp add: barrier_def)





subsection \<open>The text of a unit\<close>

lemma split_lines_no_newline: "l \<in> set (split_lines s) \<Longrightarrow> CHR 0x0A \<notin> set l"
proof (induction s arbitrary: l)
  case Nil
  then show ?case by simp
next
  case (Cons c cs)
  show ?case
  proof (cases "c = CHR 0x0A")
    case True
    with Cons show ?thesis by auto
  next
    case False
    have ne: "split_lines cs \<noteq> []" by (rule split_lines_nonempty)
    from Cons(2) False have "l = c # hd (split_lines cs) \<or> l \<in> set (tl (split_lines cs))"
      by (simp add: Let_def)
    then show ?thesis
    proof
      assume "l = c # hd (split_lines cs)"
      moreover have "hd (split_lines cs) \<in> set (split_lines cs)" using ne by simp
      ultimately show ?thesis using Cons(1) False by auto
    next
      assume "l \<in> set (tl (split_lines cs))"
      then have "l \<in> set (split_lines cs)" using ne by (auto dest: list.set_sel(2))
      then show ?thesis by (rule Cons(1))
    qed
  qed
qed

lemma split_lines_line: "CHR 0x0A \<notin> set l \<Longrightarrow> split_lines l = [l]"
  by (induction l) (auto simp: Let_def)

lemma split_lines_append:
  "CHR 0x0A \<notin> set l \<Longrightarrow> split_lines (l @ CHR 0x0A # rest) = l # split_lines rest"
  by (induction l) (auto simp: Let_def)

lemma split_join_lines:
  "xs \<noteq> [] \<Longrightarrow> \<forall>l \<in> set xs. CHR 0x0A \<notin> set l \<Longrightarrow> split_lines (join_lines xs) = xs"
proof (induction xs rule: join_lines.induct)
  case 1
  then show ?case by simp
next
  case (2 l)
  then show ?case by (simp add: split_lines_line)
next
  case (3 l m ls)
  then show ?case by (simp add: split_lines_append)
qed

lemma slice_lines:
  assumes "s < e" "e \<le> length ls"
  shows "slice s e ls \<noteq> []" "hd (slice s e ls) = ls ! s" "set (slice s e ls) \<subseteq> set ls"
proof -
  show "slice s e ls \<noteq> []" using assms by (simp add: slice_def)
  show "hd (slice s e ls) = ls ! s"
    using assms by (simp add: slice_def hd_drop_conv_nth)
  show "set (slice s e ls) \<subseteq> set ls"
    unfolding slice_def by (meson set_take_subset set_drop_subset subset_trans)
qed

lemma extract_loop_sources:
  "\<forall>sp \<in> set (extract_loop ls i).
     source (span_block sp) = join_lines (slice (span_start sp) (span_end sp) ls) \<and>
     js_trim (ls ! span_start sp) \<noteq> []"
proof (induction ls i rule: extract_loop.induct)
  case (1 ls i)
  show ?case
  proof (cases "i < length ls")
    case False
    then show ?thesis by (simp add: extract_loop_end)
  next
    case True
    note lt = this
    show ?thesis
    proof (cases "defMatch (ls ! i) = None")
      case True
      from 1(1)[OF lt True] show ?thesis by (simp add: extract_loop_skip[OF lt True])
    next
      case False
      have "js_trim (ls ! decorator_loop ls (normalizeIndent (ls ! i)) i) \<noteq> []"
        using lt defMatch_nonblank[OF False] by (rule decorator_loop_first_nonblank)
      with 1(2)[OF lt False refl refl refl] show ?thesis
        unfolding extract_loop_unit[OF lt False]
        by (simp add: span_start_def span_end_def span_block_def)
    qed
  qed
qed

lemma decorator_loop_stop:
  "0 < decorator_loop ls d k \<Longrightarrow>
   js_trim (ls ! (decorator_loop ls d k - 1)) = [] \<or>
   \<not> decoratorMatch (ls ! (decorator_loop ls d k - 1)) \<or>
   normalizeIndent (ls ! (decorator_loop ls d k - 1)) \<noteq> d"
proof (induction k)
  case 0
  then show ?case by simp
next
  case (Suc k)
  show ?case
  proof (cases "js_trim (ls ! k) \<noteq> [] \<and> decoratorMatch (ls ! k) \<and> normalizeIndent (ls ! k) = d")
    case True
    then have "decorator_loop ls d (Suc k) = decorator_loop ls d k" by (simp add: Let_def)
    with Suc show ?thesis by simp
  next
    case False
    then have "decorator_loop ls d (Suc k) = Suc k" by (auto simp: Let_def)
    with False show ?thesis by auto
  qed
qed

lemma extract_loop_origin:
  "\<forall>sp \<in> set (extract_loop ls i0).
     \<exists>i. i0 \<le> i \<and> i < length ls \<and> defMatch (ls ! i) \<noteq> None \<and>
       span_start sp = decorator_loop ls (normalizeIndent (ls ! i)) i \<and>
       span_end sp = body_loop ls (normalizeIndent (ls ! i)) (i + 1) \<and>
       functionName (span_block sp) = the (defMatch (ls ! i))"
proof (induction ls i0 rule: extract_loop.induct)
  case (1 ls i)
  show ?case
  proof (cases "i < length ls")
    case False
    then show ?thesis by (simp add: extract_loop_end)
  next
    case True
    note lt = this
    show ?thesis
    proof (cases "defMatch (ls ! i) = None")
      case True
      from 1(1)[OF lt True] show ?thesis
        unfolding extract_loop_skip[OF lt True]
        by (metis (no_types, lifting) Suc_eq_plus1 Suc_leD)
    next
      case False
      let ?e = "body_loop ls (normalizeIndent (ls ! i)) (i + 1)"
      have ge: "i \<le> ?e" using body_loop_ge[of "i + 1" ls "normalizeIndent (ls ! i)"] by simp
      have rest: "\<forall>sp \<in> set (extract_loop ls ?e).
         \<exists>j. i \<le> j \<and> j < length ls \<and> defMatch (ls ! j) \<noteq> None \<and>
           span_start sp = decorator_loop ls (normalizeIndent (ls ! j)) j \<and>
           span_end sp = body_loop ls (normalizeIndent (ls ! j)) (j + 1) \<and>
           functionName (span_block sp) = the (defMatch (ls ! j))"
        using 1(2)[OF lt False refl refl refl] ge
        by (metis (no_types, lifting) order_trans)
      have this_unit: "\<exists>j. i \<le> j \<and> j < length ls \<and> defMatch (ls ! j) \<noteq> None \<and>
           decorator_loop ls (normalizeIndent (ls ! i)) i =
             decorator_loop ls (normalizeIndent (ls ! j)) j \<and>
           ?e = body_loop ls (normalizeIndent (ls ! j)) (j + 1) \<and>
           the (defMatch (ls ! i)) = the (defMatch (ls ! j))"
        using lt False by blast
      show ?thesis
        unfolding extract_loop_unit[OF lt False]
        using rest this_unit by (simp add: span_start_def span_end_def span_block_def)
    qed
  qed
qed

text \<open>
  Claim C4, amended. For every file text and every unit returned by
  \<open>extractPythonFunctions\<close>, the unit's \<open>source\<close> is a contiguous, non-empty slice
  \<open>[start, end)\<close> of the file's lines, joined by newlines, and its first line is non-blank.
  The slice holds a line \<open>i\<close> that matches the definition pattern and gives the unit its
  name. Above it the slice holds exactly the non-blank decorator lines of the def's
  indentation that directly precede it: the line above \<open>start\<close>, if there is one, is not
  such a line. Below it every line of the slice is blank or indented deeper than the def,
  and the slice ends at the end of the file or at the first non-blank line of indentation
  at most the def's: the blank lines that follow the body are part of the unit, so its
  last line may be blank.
\<close>

theorem extractPythonFunctions_source_slice:
  "\<forall>u \<in> set (extractPythonFunctions text).
     \<exists>start i endLine.
       start \<le> i \<and> i < endLine \<and> endLine \<le> length (split_lines text) \<and>
       source u = join_lines (slice start endLine (split_lines text)) \<and>
       split_lines (source u) = slice start endLine (split_lines text) \<and>
       js_trim (hd (split_lines (source u))) \<noteq> [] \<and>
       defMatch (split_lines text ! i) = Some (functionName u) \<and>
       (\<forall>k. start \<le> k \<and> k < i \<longrightarrow>
          js_trim (split_lines text ! k) \<noteq> [] \<and> decoratorMatch (split_lines text ! k) \<and>
          normalizeIndent (split_lines text ! k) = normalizeIndent (split_lines text ! i)) \<and>
       (start = 0 \<or> js_trim (split_lines text ! (start - 1)) = [] \<or>
        \<not> decoratorMatch (split_lines text ! (start - 1)) \<or>
        normalizeIndent (split_lines text ! (start - 1)) \<noteq>
          normalizeIndent (split_lines text ! i)) \<and>
       (\<forall>k. i < k \<and> k < endLine \<longrightarrow>
          js_trim (split_lines text ! k) = [] \<or>
          normalizeIndent (split_lines text ! i) < normalizeIndent (split_lines text ! k)) \<and>
       (endLine = length (split_lines text) \<or>
        js_trim (split_lines text ! endLine) \<noteq> [] \<and>
        normalizeIndent (split_lines text ! endLine) \<le> normalizeIndent (split_lines text ! i))"
proof
  fix u assume "u \<in> set (extractPythonFunctions text)"
  then obtain sp where sp: "sp \<in> set (extract_loop (split_lines text) 0)" and u: "u = span_block sp"
    by (auto simp: extractPythonFunctions_def extract_spans_def)
  let ?ls = "split_lines text"
  let ?s = "span_start sp" and ?e = "span_end sp"
  from extract_loop_origin[of ?ls 0] sp obtain i where i: "i < length ?ls"
    and m: "defMatch (?ls ! i) \<noteq> None"
    and s: "?s = decorator_loop ?ls (normalizeIndent (?ls ! i)) i"
    and e: "?e = body_loop ?ls (normalizeIndent (?ls ! i)) (i + 1)"
    and name: "functionName (span_block sp) = the (defMatch (?ls ! i))"
    by blast
  let ?d = "normalizeIndent (?ls ! i)"
  have range: "?s < ?e" "?e \<le> length ?ls"
    using extract_loop_spans[OF order_refl barrier_0, of ?ls] sp by auto
  have si: "?s \<le> i" unfolding s by (rule decorator_loop_le)
  have ie: "i < ?e" using body_loop_ge[of "i + 1" ?ls ?d] unfolding e by simp
  have src: "source u = join_lines (slice ?s ?e ?ls)" and first: "js_trim (?ls ! ?s) \<noteq> []"
    using extract_loop_sources[of ?ls 0] sp u by auto
  have "\<forall>l \<in> set (slice ?s ?e ?ls). CHR 0x0A \<notin> set l"
    using slice_lines(3)[OF range] split_lines_no_newline by blast
  with slice_lines(1)[OF range] have split: "split_lines (source u) = slice ?s ?e ?ls"
    unfolding src by (rule split_join_lines)
  have hd: "js_trim (hd (split_lines (source u))) \<noteq> []"
    using first by (simp add: split slice_lines(2)[OF range])
  have nm: "defMatch (?ls ! i) = Some (functionName u)"
    using m name u by auto
  have above: "\<forall>k. ?s \<le> k \<and> k < i \<longrightarrow>
          js_trim (?ls ! k) \<noteq> [] \<and> decoratorMatch (?ls ! k) \<and> normalizeIndent (?ls ! k) = ?d"
    using decorator_loop_between[of ?ls ?d i] unfolding s by blast
  have top: "?s = 0 \<or> js_trim (?ls ! (?s - 1)) = [] \<or> \<not> decoratorMatch (?ls ! (?s - 1)) \<or>
        normalizeIndent (?ls ! (?s - 1)) \<noteq> ?d"
    using decorator_loop_stop[of ?ls ?d i] unfolding s by auto
  have below: "\<forall>k. i < k \<and> k < ?e \<longrightarrow> js_trim (?ls ! k) = [] \<or> ?d < normalizeIndent (?ls ! k)"
    using body_loop_inside[of "i + 1" _ ?ls ?d] unfolding e by auto
  have stop: "?e = length ?ls \<or>
        js_trim (?ls ! ?e) \<noteq> [] \<and> normalizeIndent (?ls ! ?e) \<le> ?d"
    using body_loop_stop[of ?ls ?d "i + 1"] range(2) unfolding e by auto
  show "\<exists>start i endLine.
       start \<le> i \<and> i < endLine \<and> endLine \<le> length (split_lines text) \<and>
       source u = join_lines (slice start endLine (split_lines text)) \<and>
       split_lines (source u) = slice start endLine (split_lines text) \<and>
       js_trim (hd (split_lines (source u))) \<noteq> [] \<and>
       defMatch (split_lines text ! i) = Some (functionName u) \<and>
       (\<forall>k. start \<le> k \<and> k < i \<longrightarrow>
          js_trim (split_lines text ! k) \<noteq> [] \<and> decoratorMatch (split_lines text ! k) \<and>
          normalizeIndent (split_lines text ! k) = normalizeIndent (split_lines text ! i)) \<and>
       (start = 0 \<or> js_trim (split_lines text ! (start - 1)) = [] \<or>
        \<not> decoratorMatch (split_lines text ! (start - 1)) \<or>
        normalizeIndent (split_lines text ! (start - 1)) \<noteq>
          normalizeIndent (split_lines text ! i)) \<and>
       (\<forall>k. i < k \<and> k < endLine \<longrightarrow>
          js_trim (split_lines text ! k) = [] \<or>
          normalizeIndent (split_lines text ! i) < normalizeIndent (split_lines text ! k)) \<and>
       (endLine = length (split_lines text) \<or>
        js_trim (split_lines text ! endLine) \<noteq> [] \<and>
        normalizeIndent (split_lines text ! endLine) \<le> normalizeIndent (split_lines text ! i))"
    apply (rule exI[of _ ?s], rule exI[of _ i], rule exI[of _ ?e])
    using si ie range(2) src split hd nm above top below stop by blast
qed

lemma example_source_units:
  "extractPythonFunctions example_source =
     [\<lparr>functionName = ''f'', source = join_lines [''def f():'', ''    pass'', '''']\<rparr>,
      \<lparr>functionName = ''g'',
        source = join_lines [''@dec'', ''def g(x):'', ''    return x'', '''']\<rparr>]"
  by code_simp

lemma example_source_lines:
  "split_lines example_source =
     [''def f():'', ''    pass'', '''', ''@dec'', ''def g(x):'', ''    return x'', '''']"
  by code_simp

text \<open>
  In \<open>example_source\<close> the unit \<open>f\<close> is the slice \<open>[0, 3)\<close>: it ends at the decorator of
  \<open>g\<close>, a non-blank line of indentation 0, and its last line is the blank line before it.
\<close>

theorem extractPythonFunctions_source_slice_witness:
  "\<lparr>functionName = ''f'', source = join_lines [''def f():'', ''    pass'', '''']\<rparr>
     \<in> set (extractPythonFunctions example_source) \<and>
   (\<exists>start i endLine.
       start \<le> i \<and> i < endLine \<and> endLine \<le> length (split_lines example_source) \<and>
       join_lines [''def f():'', ''    pass'', ''''] =
         join_lines (slice start endLine (split_lines example_source)) \<and>
       split_lines (join_lines [''def f():'', ''    pass'', '''']) =
         slice start endLine (split_lines example_source) \<and>
       defMatch (split_lines example_source ! i) = Some ''f'' \<and>
       (endLine = length (split_lines example_source) \<or>
        js_trim (split_lines example_source ! endLine) \<noteq> [] \<and>
        normalizeIndent (split_lines example_source ! endLine) \<le>
          normalizeIndent (split_lines example_source ! i))) \<and>
   slice 0 3 (split_lines example_source) = [''def f():'', ''    pass'', ''''] \<and>
   js_trim (split_lines example_source ! 3) \<noteq> [] \<and>
   normalizeIndent (split_lines example_source ! 3) \<le> normalizeIndent (split_lines example_source ! 0)"
proof -
  have mem: "\<lparr>functionName = ''f'', source = join_lines [''def f():'', ''    pass'', '''']\<rparr>
     \<in> set (extractPythonFunctions example_source)"
    by (simp add: example_source_units)
  have ex: "\<exists>start i endLine.
       start \<le> i \<and> i < endLine \<and> endLine \<le> length (split_lines example_source) \<and>
       join_lines [''def f():'', ''    pass'', ''''] =
         join_lines (slice start endLine (split_lines example_source)) \<and>
       split_lines (join_lines [''def f():'', ''    pass'', '''']) =
         slice start endLine (split_lines example_source) \<and>
       defMatch (split_lines example_source ! i) = Some ''f'' \<and>
       (endLine = length (split_lines example_source) \<or>
        js_trim (split_lines example_source ! endLine) \<noteq> [] \<and>
        normalizeIndent (split_lines example_source ! endLine) \<le>
          normalizeIndent (split_lines example_source ! i))"
    using extractPythonFunctions_source_slice[of example_source, rule_format, OF mem]
    by (simp only: PythonFunctionBlock.simps) blast
  have conc: "slice 0 3 (split_lines example_source) = [''def f():'', ''    pass'', '''']"
    "js_trim (split_lines example_source ! 3) \<noteq> []"
    "normalizeIndent (split_lines example_source ! 3) \<le> normalizeIndent (split_lines example_source ! 0)"
    by code_simp+
  show ?thesis using mem ex conc by blast
qed

text \<open>
  The claim as stated fails: the blank line that ends the file \<open>example_single\<close> is the
  last line of the unit \<open>f\<close>.
\<close>

theorem extractPythonFunctions_trailing_blank_counterexample:
  "extractPythonFunctions example_single =
     [\<lparr>functionName = ''f'', source = join_lines [''def f():'', ''    pass'', '''']\<rparr>] \<and>
   \<not> edges_nonblank (join_lines [''def f():'', ''    pass'', ''''])"
  by code_simp

section \<open>Properties of the analysis run\<close>

subsection \<open>A superseded run's reply\<close>

text \<open>
  Claim C1, evaluated on the code. In \<open>stale_reply_schedule\<close> run 1 (id 1) is superseded
  (the counter is 3) when the reply to its first batch arrives. The run issues no second
  request, but the five entries of its batch are appended to the explanation that run 2
  has started, and they are still there when run 2 has finished.
\<close>

theorem stale_reply_is_merged:
  "snd (fst stale_reply_schedule) = Returned \<and>
   analysisRun (fst (fst stale_reply_schedule)) = 3 \<and>
   explanation (fst (fst stale_reply_schedule)) =
     analyzing_header Teacher @ CHR 0x0A #
       join_lines [entry_line ''a'' ''old text'', entry_line ''b'' fallback_text,
         entry_line ''c'' fallback_text, entry_line ''d'' fallback_text,
         entry_line ''e'' fallback_text] \<and>
   explanation (snd stale_reply_schedule) =
     analyzing_header Teacher @ CHR 0x0A #
       join_lines [entry_line ''a'' ''old text'', entry_line ''b'' fallback_text,
         entry_line ''c'' fallback_text, entry_line ''d'' fallback_text,
         entry_line ''e'' fallback_text] @ CHR 0x0A # entry_line ''g'' ''new text'' \<and>
   isAnalyzing (snd stale_reply_schedule) = False"
  by code_simp

subsection \<open>One line for every unit\<close>

lemma unit_line_fun:
  "unit_line P reply =
     (\<lambda>fn. entry_line (functionName fn) (explanation_for P reply (functionName fn)))"
  by (rule ext) (simp add: unit_line_def)

lemma join_lines_as_concat:
  "ls \<noteq> [] \<Longrightarrow> CHR 0x0A # join_lines ls = concat (map ((#) (CHR 0x0A)) ls)"
  by (induction ls rule: join_lines.induct) auto

lemma resume_explanation:
  "analyzeCode_resume P reply run st =
     loop_head (run\<lparr>batchIndex := batchIndex run + batchSize\<rparr>)
       (st\<lparr>lastGeminiResponse :=
             (case reply of Rejected \<Rightarrow> lastGeminiResponse st
              | ReplyText t \<Rightarrow>
                  if lastGeminiResponse st \<noteq> []
                  then lastGeminiResponse st @ [CHR 0x0A, CHR 0x0A] @ js_trim t
                  else js_trim t),
           explanation := explanation st @ CHR 0x0A #
              join_lines (map (unit_line P reply)
                (take batchSize (drop (batchIndex run) (extractedFunctions run))))\<rparr>)"
  by (cases reply)
     (auto simp: analyzeCode_resume_def Let_def slice_def unit_line_fun explanation_for_def
        fallback_lines_def success_lines_def split: sum.splits option.splits)

lemma deliver_loop:
  "analysisRun st = runId run \<Longrightarrow> batchIndex run = i \<Longrightarrow> extractedFunctions run = units \<Longrightarrow>
   length rs = length (batches_from i units) \<Longrightarrow>
   \<exists>st'. deliver P rs (loop_head run st) = (st', Returned) \<and>
     explanation st' = explanation st @
       concat (map (\<lambda>(b, r). CHR 0x0A # join_lines (map (unit_line P r) b))
                 (zip (batches_from i units) rs)) \<and>
     \<not> isAnalyzing st' \<and> analysisRun st' = analysisRun st"
proof (induction i units arbitrary: st run rs rule: batches_from.induct)
  case (1 i units)
  show ?case
  proof (cases "i < length units")
    case False
    then have "batches_from i units = []" by (subst batches_from.simps) simp
    with 1(5) have "rs = []" by simp
    with False 1(2,3,4) \<open>batches_from i units = []\<close> show ?thesis
      by (simp add: loop_head_def)
  next
    case True
    have bf: "batches_from i units = take batchSize (drop i units) # batches_from (i + batchSize) units"
      using True by (subst batches_from.simps) simp
    with 1(5) obtain r rs' where rs: "rs = r # rs'"
      and len: "length rs' = length (batches_from (i + batchSize) units)"
      by (cases rs) auto
    have head: "loop_head run st = (st, Awaiting run)"
      using True 1(2,3,4) by (simp add: loop_head_def)
    let ?st = "st\<lparr>lastGeminiResponse :=
             (case r of Rejected \<Rightarrow> lastGeminiResponse st
              | ReplyText t \<Rightarrow>
                  if lastGeminiResponse st \<noteq> []
                  then lastGeminiResponse st @ [CHR 0x0A, CHR 0x0A] @ js_trim t
                  else js_trim t),
           explanation := explanation st @ CHR 0x0A #
              join_lines (map (unit_line P r) (take batchSize (drop i units)))\<rparr>"
    let ?run = "run\<lparr>batchIndex := batchIndex run + batchSize\<rparr>"
    have step: "deliver P rs (loop_head run st) = deliver P rs' (loop_head ?run ?st)"
      unfolding rs head using 1(3,4) by (simp add: resume_explanation)
    have "\<exists>st'. deliver P rs' (loop_head ?run ?st) = (st', Returned) \<and>
        explanation st' = explanation ?st @
          concat (map (\<lambda>(b, r). CHR 0x0A # join_lines (map (unit_line P r) b))
                    (zip (batches_from (i + batchSize) units) rs')) \<and>
        \<not> isAnalyzing st' \<and> analysisRun st' = analysisRun ?st"
      using 1(2,3,4) by (intro 1(1)[OF True _ _ _ len]) simp_all
    then show ?thesis
      unfolding step by (auto simp: bf rs)
  qed
qed

lemma take_drop_as_map:
  "take k (drop i xs) = map ((!) xs) [i..<min (i + k) (length xs)]"
  by (rule nth_equalityI) auto

lemma batch_lines_indexed:
  "length rs = length (batches_from i xs) \<Longrightarrow>
   concat (map (\<lambda>(b, r). map (g r) b) (zip (batches_from i xs) rs)) =
     map (\<lambda>j. g (rs ! ((j - i) div batchSize)) (xs ! j)) [i..<length xs]"
proof (induction i xs arbitrary: rs rule: batches_from.induct)
  case (1 i xs)
  show ?case
  proof (cases "i < length xs")
    case False
    then have "batches_from i xs = []" by (subst batches_from.simps) simp
    with False show ?thesis by simp
  next
    case True
    have bf: "batches_from i xs = take batchSize (drop i xs) # batches_from (i + batchSize) xs"
      using True by (subst batches_from.simps) simp
    with 1(2) obtain r rs' where rs: "rs = r # rs'"
      and len: "length rs' = length (batches_from (i + batchSize) xs)"
      by (cases rs) auto
    let ?m = "min (i + batchSize) (length xs)"
    have "i \<le> ?m" "?m \<le> length xs" using True by simp_all
    then have split: "[i..<length xs] = [i..<?m] @ [?m..<length xs]"
      using upt_add_eq_append[of i ?m "length xs - ?m"] by simp
    have first: "map (g r) (take batchSize (drop i xs)) =
        map (\<lambda>j. g (rs ! ((j - i) div batchSize)) (xs ! j)) [i..<?m]"
      unfolding take_drop_as_map rs by (auto simp: batchSize_def)
    have rest: "concat (map (\<lambda>(b, r). map (g r) b) (zip (batches_from (i + batchSize) xs) rs')) =
        map (\<lambda>j. g (rs ! ((j - i) div batchSize)) (xs ! j)) [?m..<length xs]"
    proof (cases "i + batchSize < length xs")
      case True
      then have m: "?m = i + batchSize" by simp
      have "map (\<lambda>j. g (rs' ! ((j - (i + batchSize)) div batchSize)) (xs ! j)) [i + batchSize..<length xs] =
          map (\<lambda>j. g (rs ! ((j - i) div batchSize)) (xs ! j)) [i + batchSize..<length xs]"
      proof (rule map_cong[OF refl])
        fix j assume "j \<in> set [i + batchSize..<length xs]"
        then have "i + batchSize \<le> j" by simp
        then have "(j - i) div batchSize = Suc ((j - (i + batchSize)) div batchSize)"
          by (simp add: batchSize_def)
        then show "g (rs' ! ((j - (i + batchSize)) div batchSize)) (xs ! j) =
            g (rs ! ((j - i) div batchSize)) (xs ! j)"
          by (simp add: rs)
      qed
      with 1(1)[OF \<open>i < length xs\<close> len] show ?thesis unfolding m by simp
    next
      case False
      then have "batches_from (i + batchSize) xs = []" by (subst batches_from.simps) simp
      with False show ?thesis by simp
    qed
    show ?thesis
      unfolding split bf rs using first rest unfolding rs by simp
  qed
qed

lemma batches_from_nonempty: "b \<in> set (batches_from i xs) \<Longrightarrow> b \<noteq> []"
  using batches_from_sizes[of i xs] by auto

lemma concat_batch_chunks:
  "(\<forall>b \<in> set bs. b \<noteq> []) \<Longrightarrow>
   concat (map (\<lambda>(b, r). CHR 0x0A # join_lines (map (f r) b)) (zip bs rs)) =
     concat (map ((#) (CHR 0x0A)) (concat (map (\<lambda>(b, r). map (f r) b) (zip bs rs))))"
proof (induction bs arbitrary: rs)
  case Nil
  then show ?case by simp
next
  case (Cons b bs)
  show ?case
  proof (cases rs)
    case Nil
    then show ?thesis by simp
  next
    case (Cons r rs')
    have "b \<noteq> []" using Cons.prems by simp
    then have "CHR 0x0A # join_lines (map (f r) b) = concat (map ((#) (CHR 0x0A)) (map (f r) b))"
      by (intro join_lines_as_concat) simp
    with Cons.IH[of rs'] Cons.prems Cons show ?thesis by simp
  qed
qed

lemma parsedByName_snoc:
  "parsedByName (xs @ [x]) n =
     (if the (string_field x ''functionName'') = n then Some (the (string_field x ''explanation''))
      else parsedByName xs n)"
  by (simp add: parsedByName_def)

lemma parsedByName_matching:
  "list_all valid_item parsed \<Longrightarrow>
   parsedByName parsed n =
     (if matching_explanations parsed n = [] then None
      else Some (last (matching_explanations parsed n)))"
proof (induction parsed rule: rev_induct)
  case Nil
  then show ?case by (simp add: parsedByName_def matching_explanations_def)
next
  case (snoc x xs)
  then have v: "valid_item x" and ih: "parsedByName xs n =
     (if matching_explanations xs n = [] then None
      else Some (last (matching_explanations xs n)))" by auto
  from v obtain a where a: "string_field x ''functionName'' = Some a"
    by (auto simp: valid_item_def)
  show ?case
    unfolding parsedByName_snoc using a ih
    by (auto simp: matching_explanations_def)
qed

lemma explanation_for_cases:
  "explanation_for P Rejected n = fallback_text"
  "P (clean_model_text t) = None \<Longrightarrow> explanation_for P (ReplyText t) n = fallback_text"
  "P (clean_model_text t) = Some v \<Longrightarrow> \<not> list_all valid_item (as_array v) \<Longrightarrow>
     explanation_for P (ReplyText t) n = fallback_text"
  "P (clean_model_text t) = Some v \<Longrightarrow> list_all valid_item (as_array v) \<Longrightarrow>
     explanation_for P (ReplyText t) n =
       (if matching_explanations (as_array v) n = [] \<or> last (matching_explanations (as_array v) n) = []
        then fallback_text else last (matching_explanations (as_array v) n))"
  by (auto simp: explanation_for_def parseJsonFromModelText_def Let_def parsedByName_matching)

text \<open>
  Claim C3, amended. Take a call of \<open>analyzeCode\<close> on a file with at least one unit, with
  the API key set, whose batch replies all arrive while it is the latest run and with no
  other run's code running in between. It returns, with the busy flag cleared, and its
  final explanation is the header followed by exactly one line for every unit, in the
  order of the units: \<open><b>name:</b> text\<close>, where the text is decided by the reply to the
  unit's batch (batch \<open>j div 5\<close> for unit \<open>j\<close>). That text is the fallback when the call
  was rejected, when the reply does not parse, when an item of the parsed reply lacks one
  of the two string fields, when no item has the unit's name, and also when the last item
  of that name has the empty explanation; otherwise it is the explanation of the last item
  of that name.
\<close>

theorem analyzeCode_one_line_per_unit:
  "(units = extractPythonFunctions codeContent \<and> units \<noteq> [] \<and>
    length replies = length (batches units) \<longrightarrow>
      (\<exists>st'. deliver P replies (analyzeCode_start True m codeContent st) = (st', Returned) \<and>
         explanation st' =
           analyzing_header m @
           concat (map (\<lambda>j. CHR 0x0A #
                      entry_line (functionName (units ! j))
                        (explanation_for P (replies ! (j div 5)) (functionName (units ! j))))
                    [0..<length units]) \<and>
         \<not> isAnalyzing st' \<and> analysisRun st' = analysisRun st + 1)) \<and>
   explanation_for P Rejected n = fallback_text \<and>
   (P (clean_model_text t) = None \<longrightarrow> explanation_for P (ReplyText t) n = fallback_text) \<and>
   (P (clean_model_text t) = Some v \<and> \<not> list_all valid_item (as_array v) \<longrightarrow>
      explanation_for P (ReplyText t) n = fallback_text) \<and>
   (P (clean_model_text t) = Some v \<and> list_all valid_item (as_array v) \<longrightarrow>
      explanation_for P (ReplyText t) n =
        (if matching_explanations (as_array v) n = [] \<or>
            last (matching_explanations (as_array v) n) = []
         then fallback_text else last (matching_explanations (as_array v) n)))"
proof (intro conjI impI)
  assume h: "units = extractPythonFunctions codeContent \<and> units \<noteq> [] \<and>
    length replies = length (batches units)"
  let ?run = "\<lparr>runId = analysisRun st + 1, extractedFunctions = units, batchIndex = 0\<rparr>"
  let ?st2 = "st\<lparr>analysisRun := analysisRun st + 1, isAnalyzing := True, explanation := [],
                   lastGeminiResponse := [], explanation := analyzing_header m\<rparr>"
  from h have u: "extractPythonFunctions codeContent = units" "units \<noteq> []" by auto
  have start: "analyzeCode_start True m codeContent st = loop_head ?run ?st2"
    by (simp add: analyzeCode_start_def Let_def u)
  have len: "length replies = length (batches_from 0 units)"
    using h by (simp add: batches_def)
  from deliver_loop[of ?st2 ?run 0 units replies P] len
  obtain st' where d: "deliver P replies (loop_head ?run ?st2) = (st', Returned)"
    and e: "explanation st' = explanation ?st2 @
       concat (map (\<lambda>(b, r). CHR 0x0A # join_lines (map (unit_line P r) b))
                 (zip (batches_from 0 units) replies))"
    and rest: "\<not> isAnalyzing st'" "analysisRun st' = analysisRun ?st2"
    by auto
  have "concat (map (\<lambda>(b, r). CHR 0x0A # join_lines (map (unit_line P r) b))
                 (zip (batches_from 0 units) replies)) =
      concat (map ((#) (CHR 0x0A))
        (concat (map (\<lambda>(b, r). map (unit_line P r) b) (zip (batches_from 0 units) replies))))"
    by (rule concat_batch_chunks) (use batches_from_nonempty in blast)
  also have "\<dots> = concat (map ((#) (CHR 0x0A))
      (map (\<lambda>j. unit_line P (replies ! ((j - 0) div batchSize)) (units ! j)) [0..<length units]))"
    by (simp only: batch_lines_indexed[OF len])
  also have "\<dots> = concat (map (\<lambda>j. CHR 0x0A #
                      entry_line (functionName (units ! j))
                        (explanation_for P (replies ! (j div 5)) (functionName (units ! j))))
                    [0..<length units])"
    by (simp add: unit_line_def batchSize_def comp_def)
  finally show "\<exists>st'. deliver P replies (analyzeCode_start True m codeContent st) = (st', Returned) \<and>
         explanation st' =
           analyzing_header m @
           concat (map (\<lambda>j. CHR 0x0A #
                      entry_line (functionName (units ! j))
                        (explanation_for P (replies ! (j div 5)) (functionName (units ! j))))
                    [0..<length units]) \<and>
         \<not> isAnalyzing st' \<and> analysisRun st' = analysisRun st + 1"
    using d e rest unfolding start by simp
qed (simp_all add: explanation_for_cases)

lemma example_run_hypotheses:
  "extractPythonFunctions example_source \<noteq> []"
  "length [ReplyText ''reply f''] = length (batches (extractPythonFunctions example_source))"
  by code_simp+

lemma example_run_lines:
  "analyzing_header Teacher @
     concat (map (\<lambda>j. CHR 0x0A #
                entry_line (functionName (extractPythonFunctions example_source ! j))
                  (explanation_for example_parse ([ReplyText ''reply f''] ! (j div 5))
                     (functionName (extractPythonFunctions example_source ! j))))
              [0..<length (extractPythonFunctions example_source)]) =
   analyzing_header Teacher @
     CHR 0x0A # entry_line ''f'' fallback_text @ CHR 0x0A # entry_line ''g'' ''adds one''"
  by code_simp

lemma example_replies:
  "example_parse (clean_model_text ''noise'') = None"
  "example_parse (clean_model_text ''reply bad'') =
     Some (JArray [JObject [(''functionName'', JString ''f'')]])"
  "\<not> list_all valid_item (as_array (JArray [JObject [(''functionName'', JString ''f'')]]))"
  "example_parse (clean_model_text ''reply f'') =
     Some (JArray [response_item ''f'' [], response_item ''g'' ''adds one''])"
  "list_all valid_item (as_array (JArray [response_item ''f'' [], response_item ''g'' ''adds one'']))"
  "matching_explanations
     (as_array (JArray [response_item ''f'' [], response_item ''g'' ''adds one''])) ''g'' =
     [''adds one'']"
  by code_simp+

theorem analyzeCode_one_line_per_unit_witness:
  "extractPythonFunctions example_source \<noteq> [] \<and>
   length [ReplyText ''reply f''] = length (batches (extractPythonFunctions example_source)) \<and>
   (\<exists>st'. deliver example_parse [ReplyText ''reply f'']
            (analyzeCode_start True Teacher example_source initial_panel) = (st', Returned) \<and>
      explanation st' =
        analyzing_header Teacher @
          CHR 0x0A # entry_line ''f'' fallback_text @ CHR 0x0A # entry_line ''g'' ''adds one'' \<and>
      \<not> isAnalyzing st') \<and>
   example_parse (clean_model_text ''noise'') = None \<and>
   explanation_for example_parse (ReplyText ''noise'') ''g'' = fallback_text \<and>
   \<not> list_all valid_item (as_array (JArray [JObject [(''functionName'', JString ''f'')]])) \<and>
   explanation_for example_parse (ReplyText ''reply bad'') ''g'' = fallback_text \<and>
   list_all valid_item (as_array (JArray [response_item ''f'' [], response_item ''g'' ''adds one''])) \<and>
   explanation_for example_parse (ReplyText ''reply f'') ''g'' = ''adds one''"
proof -
  note run = analyzeCode_one_line_per_unit
    [of "extractPythonFunctions example_source" example_source "[ReplyText ''reply f'']"
      example_parse Teacher initial_panel "''g''" "''reply f''"
      "JArray [response_item ''f'' [], response_item ''g'' ''adds one'']"]
  note noise = analyzeCode_one_line_per_unit
    [of "extractPythonFunctions example_source" example_source "[ReplyText ''reply f'']"
      example_parse Teacher initial_panel "''g''" "''noise''" JNull]
  note bad = analyzeCode_one_line_per_unit
    [of "extractPythonFunctions example_source" example_source "[ReplyText ''reply f'']"
      example_parse Teacher initial_panel "''g''" "''reply bad''"
      "JArray [JObject [(''functionName'', JString ''f'')]]"]
  have 1: "\<exists>st'. deliver example_parse [ReplyText ''reply f'']
            (analyzeCode_start True Teacher example_source initial_panel) = (st', Returned) \<and>
      explanation st' =
        analyzing_header Teacher @
          CHR 0x0A # entry_line ''f'' fallback_text @ CHR 0x0A # entry_line ''g'' ''adds one'' \<and>
      \<not> isAnalyzing st'"
    using run example_run_hypotheses unfolding example_run_lines[symmetric] by blast
  have 2: "explanation_for example_parse (ReplyText ''noise'') ''g'' = fallback_text"
    using noise example_replies(1) by blast
  have 3: "explanation_for example_parse (ReplyText ''reply bad'') ''g'' = fallback_text"
    using bad example_replies(2,3) by blast
  have 4: "explanation_for example_parse (ReplyText ''reply f'') ''g'' = ''adds one''"
    using run example_replies(4,5) by (simp add: example_replies(6))
  show ?thesis
    using 1 2 3 4 example_run_hypotheses example_replies by blast
qed

text \<open>
  The claim as stated fails where the matching item's explanation is the empty string:
  the reply \<open>reply f\<close> parses, every item has both string fields, and an item is named
  \<open>f\<close>, but the line of unit \<open>f\<close> carries the fallback text, not the parsed explanation.
\<close>

theorem analyzeCode_empty_explanation_counterexample:
  "parseJsonFromModelText example_parse ''reply f'' =
     Inr [response_item ''f'' [], response_item ''g'' ''adds one''] \<and>
   string_field (response_item ''f'' []) ''functionName'' = Some ''f'' \<and>
   string_field (response_item ''f'' []) ''explanation'' = Some [] \<and>
   deliver example_parse [ReplyText ''reply f'']
     (analyzeCode_start True Teacher example_source initial_panel) =
     (\<lparr>analysisRun = 1,
       explanation = analyzing_header Teacher @
          CHR 0x0A # entry_line ''f'' fallback_text @ CHR 0x0A # entry_line ''g'' ''adds one'',
       isAnalyzing = False, lastGeminiResponse = ''reply f''\<rparr>, Returned) \<and>
   entry_line ''f'' fallback_text \<noteq> entry_line ''f'' []"
  by code_simp

section \<open>Properties of the voice session\<close>

lemma js_trim_idem: "js_trim (js_trim s) = js_trim s"
proof -
  define u where "u = dropWhile is_space s"
  define t where "t = rev (dropWhile is_space (rev u))"
  have t: "js_trim s = t" by (simp add: js_trim_def t_def u_def)
  show ?thesis
  proof (cases "t = []")
    case True
    have "js_trim [] = []" by (simp add: js_trim_def)
    with True show ?thesis unfolding t by simp
  next
    case False
    have "rev u = takeWhile is_space (rev u) @ dropWhile is_space (rev u)" by simp
    then have "u = t @ rev (takeWhile is_space (rev u))"
      unfolding t_def by (metis rev_append rev_rev_ident)
    with False have "hd t = hd u" by (metis hd_append2)
    moreover have "u \<noteq> []" using False by (auto simp: t_def)
    ultimately have "\<not> is_space (hd t)" using hd_dropWhile[of is_space s] by (simp add: u_def)
    then have 1: "dropWhile is_space t = t" using False by (cases t) auto
    have "dropWhile is_space (rev u) \<noteq> []" using False by (simp add: t_def)
    then have "\<not> is_space (hd (dropWhile is_space (rev u)))" by (rule hd_dropWhile)
    then have "\<not> is_space (hd (rev t))" by (simp add: t_def)
    then have 2: "dropWhile is_space (rev t) = rev t" using False by (cases "rev t") auto
    show ?thesis unfolding t by (simp add: js_trim_def 1 2)
  qed
qed

lemma js_includes_self: "js_includes s s"
  by (cases s) auto

lemma exit_phrases_nonempty: "[] \<notin> set RUBBER_DUCKY_EXIT_PHRASES"
  by (simp add: RUBBER_DUCKY_EXIT_PHRASES_def)

lemma process_exit:
  assumes "js_toLowerCase (js_trim userText) \<in> set RUBBER_DUCKY_EXIT_PHRASES"
  shows "processRubberDuckyTranscript hasApiKey userText st = (endRubberDuckySession st, TurnReturned)"
proof -
  have "js_toLowerCase (js_trim userText) \<noteq> []"
    using assms exit_phrases_nonempty by metis
  then have ne: "js_trim userText \<noteq> []" by (auto simp: js_toLowerCase_def)
  have "list_ex (\<lambda>p. js_includes (js_toLowerCase (js_trim userText)) p) RUBBER_DUCKY_EXIT_PHRASES"
    unfolding list_ex_iff using assms js_includes_self by blast
  with ne show ?thesis by (simp add: processRubberDuckyTranscript_def Let_def)
qed

lemma finalized_transcript_trimmed:
  "js_trim (finalized_transcript transcript st) = finalized_transcript transcript st"
  by (simp add: finalized_transcript_def js_trim_idem)

text \<open>
  Claim C7. A transcript that, trimmed and lower-cased, is one of the exit phrases ends the
  session: \<open>processRubberDuckyTranscript\<close> returns without invoking the model, with the
  session-active flag cleared, the history empty and the status idle; the same holds when
  the transcript effect hands such a finalized transcript on. When the finalized transcript
  is empty, the effect returns with the status idle, the history unchanged and no model
  call; \<open>processRubberDuckyTranscript\<close> itself returns on a blank text without any change.
\<close>

theorem voice_exit_phrase_and_empty_transcript:
  "(js_toLowerCase (js_trim userText) \<in> set RUBBER_DUCKY_EXIT_PHRASES \<longrightarrow>
      processRubberDuckyTranscript hasApiKey userText st = (endRubberDuckySession st, TurnReturned) \<and>
      \<not> sessionActive (endRubberDuckySession st) \<and>
      conversationHistory (endRubberDuckySession st) = [] \<and>
      rubberDuckyStatus (endRubberDuckySession st) = Idle) \<and>
   (pendingTranscriptProcess st \<and> sessionActive st \<and>
    js_toLowerCase (finalized_transcript transcript st) \<in> set RUBBER_DUCKY_EXIT_PHRASES \<longrightarrow>
      (\<exists>st'. transcript_effect hasApiKey False True transcript st = (st', TurnReturned) \<and>
         \<not> sessionActive st' \<and> conversationHistory st' = [] \<and> rubberDuckyStatus st' = Idle)) \<and>
   (pendingTranscriptProcess st \<and> sessionActive st \<and> finalized_transcript transcript st = [] \<longrightarrow>
      (\<exists>st'. transcript_effect hasApiKey False True transcript st = (st', TurnReturned) \<and>
         rubberDuckyStatus st' = Idle \<and> conversationHistory st' = conversationHistory st \<and>
         sessionActive st')) \<and>
   (js_trim userText = [] \<longrightarrow>
      processRubberDuckyTranscript hasApiKey userText st = (st, TurnReturned))"
proof (intro conjI impI)
  assume "js_toLowerCase (js_trim userText) \<in> set RUBBER_DUCKY_EXIT_PHRASES"
  then show "processRubberDuckyTranscript hasApiKey userText st =
      (endRubberDuckySession st, TurnReturned)"
    by (rule process_exit)
next
  show "\<not> sessionActive (endRubberDuckySession st)"
    "conversationHistory (endRubberDuckySession st) = []"
    "rubberDuckyStatus (endRubberDuckySession st) = Idle"
    by (simp_all add: endRubberDuckySession_def)
next
  assume h: "pendingTranscriptProcess st \<and> sessionActive st \<and>
    js_toLowerCase (finalized_transcript transcript st) \<in> set RUBBER_DUCKY_EXIT_PHRASES"
  let ?text = "finalized_transcript transcript st"
  have "js_toLowerCase ?text \<noteq> []" using h exit_phrases_nonempty by metis
  then have ne: "?text \<noteq> []" by (auto simp: js_toLowerCase_def)
  have "js_toLowerCase (js_trim ?text) \<in> set RUBBER_DUCKY_EXIT_PHRASES"
    using h by (simp add: finalized_transcript_trimmed)
  from process_exit[OF this]
  have "transcript_effect hasApiKey False True transcript st =
      (endRubberDuckySession (st\<lparr>pendingTranscriptProcess := False\<rparr>), TurnReturned)"
    using h ne by (simp add: transcript_effect_def Let_def)
  then show "\<exists>st'. transcript_effect hasApiKey False True transcript st = (st', TurnReturned) \<and>
         \<not> sessionActive st' \<and> conversationHistory st' = [] \<and> rubberDuckyStatus st' = Idle"
    by (simp add: endRubberDuckySession_def)
next
  assume "pendingTranscriptProcess st \<and> sessionActive st \<and> finalized_transcript transcript st = []"
  then show "\<exists>st'. transcript_effect hasApiKey False True transcript st = (st', TurnReturned) \<and>
         rubberDuckyStatus st' = Idle \<and> conversationHistory st' = conversationHistory st \<and>
         sessionActive st'"
    by (simp add: transcript_effect_def Let_def)
next
  assume "js_trim userText = []"
  then show "processRubberDuckyTranscript hasApiKey userText st = (st, TurnReturned)"
    by (simp add: processRubberDuckyTranscript_def)
qed

lemma example_transcripts:
  "js_toLowerCase (js_trim ''  StOP  '') \<in> set RUBBER_DUCKY_EXIT_PHRASES"
  "js_toLowerCase (finalized_transcript ''  StOP  '' example_voice_state)
     \<in> set RUBBER_DUCKY_EXIT_PHRASES"
  "finalized_transcript ''   '' example_voice_state = []"
  "js_trim ''   '' = []"
  "pendingTranscriptProcess example_voice_state" "sessionActive example_voice_state"
  by code_simp+

theorem voice_exit_phrase_and_empty_transcript_witness:
  "js_toLowerCase (js_trim ''  StOP  '') \<in> set RUBBER_DUCKY_EXIT_PHRASES \<and>
   processRubberDuckyTranscript True ''  StOP  '' example_voice_state =
     (endRubberDuckySession example_voice_state, TurnReturned) \<and>
   (\<exists>st'. transcript_effect True False True ''  StOP  '' example_voice_state = (st', TurnReturned) \<and>
      \<not> sessionActive st' \<and> conversationHistory st' = [] \<and> rubberDuckyStatus st' = Idle) \<and>
   finalized_transcript ''   '' example_voice_state = [] \<and>
   (\<exists>st'. transcript_effect True False True ''   '' example_voice_state = (st', TurnReturned) \<and>
      rubberDuckyStatus st' = Idle \<and>
      conversationHistory st' = conversationHistory example_voice_state) \<and>
   processRubberDuckyTranscript True ''   '' example_voice_state =
     (example_voice_state, TurnReturned)"
  using voice_exit_phrase_and_empty_transcript
      [of "''  StOP  ''" True example_voice_state "''  StOP  ''"]
    voice_exit_phrase_and_empty_transcript
      [of "''   ''" True example_voice_state "''   ''"]
    example_transcripts
  by blast

section \<open>Properties of the vibe edit applier\<close>

lemma js_includes_needs_first:
  "c \<notin> set s \<Longrightarrow> \<not> js_includes s (c # p)"
  by (induction s) auto

lemma digit_not_V: "(k::nat) < 10 \<Longrightarrow> (char_of (48 + k) :: char) \<noteq> CHR ''V''"
proof
  assume k: "k < 10" and eq: "(char_of (48 + k) :: char) = CHR ''V''"
  from eq have "(of_char (char_of (48 + k) :: char) :: nat) = of_char (CHR ''V'')" by simp
  with k show False by simp
qed

lemma decimal_no_V: "CHR ''V'' \<notin> set (decimal n)"
proof (induction n rule: decimal.induct)
  case (1 n)
  show ?case
  proof (cases "n < 10")
    case True
    then show ?thesis using digit_not_V[of n] by (subst decimal.simps) auto
  next
    case False
    have "n mod 10 < 10" by simp
    from digit_not_V[OF this] 1[OF False] False show ?thesis
      by (subst decimal.simps) auto
  qed
qed

lemma status_error_not_credential:
  "\<not> js_includes (''OpenAI request failed with status '' @ decimal status) ''VITE_OPENAI_API_KEY''"
  using decimal_no_V[of status] by (intro js_includes_needs_first) auto

lemma empty_error_not_credential:
  "\<not> js_includes ''OpenAI returned an empty response.'' ''VITE_OPENAI_API_KEY''"
  by (intro js_includes_needs_first) simp

lemma missing_key_error_caught:
  "vibe_catch missing_key_error = [SetStatusMessage credential_message]"
  by code_simp

lemma vibe_catch_one: "\<exists>m. vibe_catch err = [SetStatusMessage m]"
  by (cases err) (simp add: vibe_catch_def)

lemma vibe_try_failure:
  "vibe_failure pf apiKey outcome \<Longrightarrow>
   (\<exists>err. vibe_try pf apiKey fileName outcome = Inl err) \<or>
   vibe_try pf apiKey fileName outcome = Inr [SetStatusMessage no_edit_message]"
  by (auto simp: vibe_failure_def key_missing_def vibe_try_def Let_def
        split: fetch_outcome.splits body_outcome.splits option.splits json.splits list.splits
               if_splits)

lemma vibe_try_key_missing:
  "key_missing apiKey \<Longrightarrow> vibe_try pf apiKey fileName outcome = Inl missing_key_error"
  by (auto simp: key_missing_def vibe_try_def)

lemma vibe_try_not_ok:
  "\<not> key_missing apiKey \<Longrightarrow>
   vibe_try pf apiKey fileName (HttpResponse False status body) =
     Inl (Thrown True (''OpenAI request failed with status '' @ decimal status))"
  by (auto simp: key_missing_def vibe_try_def)

text \<open>
  Claim C8. A request that passes the two input checks and then fails (credential
  missing, request rejected, response not OK, content empty or not JSON, \<open>updatedContent\<close>
  missing or empty) never calls the apply callback, and its failure sets exactly one
  status message: the calls are \<open>setIsAnalyzing(true)\<close>, the progress text that every
  started request sets, the one failure message, and \<open>setIsAnalyzing(false)\<close>. That
  message is the credential message when the credential is missing and the generic failure
  message when the response is not OK, and the two differ. A request that fails an input
  check sets exactly one status message and does nothing else.
\<close>

theorem runVibeTask_failure:
  "(fileName \<noteq> [] \<and> code \<noteq> [] \<and>
    js_trim (case promptOverride of Some p \<Rightarrow> p | None \<Rightarrow> vibePrompt) \<noteq> [] \<and>
    vibe_failure pf apiKey outcome \<longrightarrow>
      (\<exists>m. runVibeTask pf apiKey fileName code promptOverride vibePrompt outcome =
              [SetIsAnalyzing True, SetStatusMessage ''Generating edits...'',
               SetStatusMessage m, SetIsAnalyzing False] \<and>
            (key_missing apiKey \<longrightarrow> m = credential_message) \<and>
            (\<not> key_missing apiKey \<and> (\<exists>status body. outcome = HttpResponse False status body) \<longrightarrow>
               m = generic_failure_message)) \<and>
      (\<forall>c. ApplyActiveFileChange c \<notin>
             set (runVibeTask pf apiKey fileName code promptOverride vibePrompt outcome))) \<and>
   (fileName = [] \<or> code = [] \<or>
    js_trim (case promptOverride of Some p \<Rightarrow> p | None \<Rightarrow> vibePrompt) = [] \<longrightarrow>
      (\<exists>m. runVibeTask pf apiKey fileName code promptOverride vibePrompt outcome =
              [SetStatusMessage m])) \<and>
   credential_message \<noteq> generic_failure_message"
proof (intro conjI impI)
  assume h: "fileName \<noteq> [] \<and> code \<noteq> [] \<and>
    js_trim (case promptOverride of Some p \<Rightarrow> p | None \<Rightarrow> vibePrompt) \<noteq> [] \<and>
    vibe_failure pf apiKey outcome"
  let ?run = "runVibeTask pf apiKey fileName code promptOverride vibePrompt outcome"
  have run: "?run = [SetIsAnalyzing True, SetStatusMessage ''Generating edits...''] @
      (case vibe_try pf apiKey fileName outcome of Inl err \<Rightarrow> vibe_catch err | Inr effects \<Rightarrow> effects) @
      [SetIsAnalyzing False]"
    using h by (simp add: runVibeTask_def Let_def)
  have "\<exists>m. (case vibe_try pf apiKey fileName outcome of
               Inl err \<Rightarrow> vibe_catch err | Inr effects \<Rightarrow> effects) = [SetStatusMessage m] \<and>
            (key_missing apiKey \<longrightarrow> m = credential_message) \<and>
            (\<not> key_missing apiKey \<and> (\<exists>status body. outcome = HttpResponse False status body) \<longrightarrow>
               m = generic_failure_message)"
  proof (cases "key_missing apiKey")
    case True
    then show ?thesis
      by (simp add: vibe_try_key_missing missing_key_error_caught)
  next
    case False
    note present = this
    show ?thesis
    proof (cases "\<exists>status body. outcome = HttpResponse False status body")
      case True
      then obtain status body where "outcome = HttpResponse False status body" by blast
      then show ?thesis
        using present status_error_not_credential[of status]
        by (simp add: vibe_try_not_ok vibe_catch_def)
    next
      case False
      from vibe_try_failure[of pf apiKey outcome fileName] h vibe_catch_one
      have "\<exists>m. (case vibe_try pf apiKey fileName outcome of
               Inl err \<Rightarrow> vibe_catch err | Inr effects \<Rightarrow> effects) = [SetStatusMessage m]"
        by (auto split: sum.splits)
      with present False show ?thesis by blast
    qed
  qed
  then obtain m where m: "(case vibe_try pf apiKey fileName outcome of
               Inl err \<Rightarrow> vibe_catch err | Inr effects \<Rightarrow> effects) = [SetStatusMessage m]"
    and km: "key_missing apiKey \<longrightarrow> m = credential_message"
    and st: "\<not> key_missing apiKey \<and> (\<exists>status body. outcome = HttpResponse False status body) \<longrightarrow>
               m = generic_failure_message"
    by blast
  have eq: "?run = [SetIsAnalyzing True, SetStatusMessage ''Generating edits...'',
               SetStatusMessage m, SetIsAnalyzing False]"
    unfolding run m by simp
  with km st show "\<exists>m. ?run =
              [SetIsAnalyzing True, SetStatusMessage ''Generating edits...'',
               SetStatusMessage m, SetIsAnalyzing False] \<and>
            (key_missing apiKey \<longrightarrow> m = credential_message) \<and>
            (\<not> key_missing apiKey \<and> (\<exists>status body. outcome = HttpResponse False status body) \<longrightarrow>
               m = generic_failure_message)"
    by blast
  show "\<forall>c. ApplyActiveFileChange c \<notin> set ?run"
    unfolding eq by simp
next
  assume "fileName = [] \<or> code = [] \<or>
    js_trim (case promptOverride of Some p \<Rightarrow> p | None \<Rightarrow> vibePrompt) = []"
  then show "\<exists>m. runVibeTask pf apiKey fileName code promptOverride vibePrompt outcome =
              [SetStatusMessage m]"
    by (auto simp: runVibeTask_def Let_def)
next
  show "credential_message \<noteq> generic_failure_message"
    by (simp add: credential_message_def generic_failure_message_def)
qed

lemma example_vibe_inputs:
  "js_trim (case None of Some p \<Rightarrow> p | None \<Rightarrow> ''set x to 1'') \<noteq> []"
  "vibe_failure example_platform None (HttpResponse True 200 (JsonBody (completion_with ''edit'')))"
  "key_missing None"
  "vibe_failure example_platform (Some ''k'')
     (HttpResponse False 503 (JsonBody (completion_with ''edit'')))"
  "\<not> key_missing (Some ''k'')"
  by code_simp+

theorem runVibeTask_failure_witness:
  "vibe_failure example_platform None (HttpResponse True 200 (JsonBody (completion_with ''edit''))) \<and>
   runVibeTask example_platform None ''main.py'' ''x = 0'' None ''set x to 1''
       (HttpResponse True 200 (JsonBody (completion_with ''edit''))) =
     [SetIsAnalyzing True, SetStatusMessage ''Generating edits...'',
      SetStatusMessage credential_message, SetIsAnalyzing False] \<and>
   vibe_failure example_platform (Some ''k'')
     (HttpResponse False 503 (JsonBody (completion_with ''edit''))) \<and>
   runVibeTask example_platform (Some ''k'') ''main.py'' ''x = 0'' None ''set x to 1''
       (HttpResponse False 503 (JsonBody (completion_with ''edit''))) =
     [SetIsAnalyzing True, SetStatusMessage ''Generating edits...'',
      SetStatusMessage generic_failure_message, SetIsAnalyzing False] \<and>
   (\<exists>m. runVibeTask example_platform (Some ''k'') [] ''x = 0'' None ''set x to 1''
       (HttpResponse True 200 (JsonBody (completion_with ''edit''))) = [SetStatusMessage m])"
proof -
  have names: "''main.py'' \<noteq> []" "''x = 0'' \<noteq> []" by simp_all
  have 1: "runVibeTask example_platform None ''main.py'' ''x = 0'' None ''set x to 1''
       (HttpResponse True 200 (JsonBody (completion_with ''edit''))) =
     [SetIsAnalyzing True, SetStatusMessage ''Generating edits...'',
      SetStatusMessage credential_message, SetIsAnalyzing False]"
    using runVibeTask_failure
      [where fileName = "''main.py''" and code = "''x = 0''" and promptOverride = None
        and vibePrompt = "''set x to 1''" and pf = example_platform and apiKey = None
        and outcome = "HttpResponse True 200 (JsonBody (completion_with ''edit''))"]
      names example_vibe_inputs(1,2,3)
    by blast
  have 2: "runVibeTask example_platform (Some ''k'') ''main.py'' ''x = 0'' None ''set x to 1''
       (HttpResponse False 503 (JsonBody (completion_with ''edit''))) =
     [SetIsAnalyzing True, SetStatusMessage ''Generating edits...'',
      SetStatusMessage generic_failure_message, SetIsAnalyzing False]"
    using runVibeTask_failure
      [where fileName = "''main.py''" and code = "''x = 0''" and promptOverride = None
        and vibePrompt = "''set x to 1''" and pf = example_platform and apiKey = "Some ''k''"
        and outcome = "HttpResponse False 503 (JsonBody (completion_with ''edit''))"]
      names example_vibe_inputs(1,4,5)
    by blast
  have 3: "\<exists>m. runVibeTask example_platform (Some ''k'') [] ''x = 0'' None ''set x to 1''
       (HttpResponse True 200 (JsonBody (completion_with ''edit''))) = [SetStatusMessage m]"
    using runVibeTask_failure
      [where fileName = "[]" and code = "''x = 0''" and promptOverride = None
        and vibePrompt = "''set x to 1''" and pf = example_platform and apiKey = "Some ''k''"
        and outcome = "HttpResponse True 200 (JsonBody (completion_with ''edit''))"]
    by blast
  show ?thesis using 1 2 3 example_vibe_inputs(2,4) by blast
qed

end
